theory Spec2Isabelle
  imports Main "HOL-Library.Char_ord" "HOL-Library.List_Lexorder" "HOL-Library.Multiset"
begin

section \<open>Python values used by code.py\<close>

text \<open>
  The exception classes that the handlers of \<^verbatim>\<open>code.py\<close> tell apart or that its own
  expressions can raise. Every \<^verbatim>\<open>except Exception\<close> clause catches all of them.
\<close>

datatype py_error =
    OSError | AttributeError | TypeError | RuntimeError
  | IndexError | MemoryError | ValueError | ZeroDivisionError

text \<open>What a capture function hands back to \<^verbatim>\<open>safe_capture_operation\<close>.\<close>

datatype pyval = PyNone | PyBool bool

text \<open>
  Subscripting a Python sequence, \<^verbatim>\<open>xs[i]\<close>: indices from \<^verbatim>\<open>-len(xs)\<close> to \<^verbatim>\<open>-1\<close> count
  back from the end, anything outside both ranges raises.
\<close>

definition py_index :: "'a list \<Rightarrow> int \<Rightarrow> py_error + 'a" where
  "py_index xs i =
     (if 0 \<le> i \<and> i < int (length xs) then Inr (xs ! nat i)
      else if i < 0 \<and> - int (length xs) \<le> i then Inr (xs ! nat (int (length xs) + i))
      else Inl IndexError)"

text \<open>\<^verbatim>\<open>str.lower()\<close> (CircuitPython folds the ASCII letters) and \<^verbatim>\<open>str.endswith\<close>.\<close>

definition lower_char :: "char \<Rightarrow> char" where
  "lower_char c =
     (if CHR ''A'' \<le> c \<and> c \<le> CHR ''Z'' then char_of (of_char c + (32::nat)) else c)"

definition lower :: "string \<Rightarrow> string" where
  "lower s = map lower_char s"

definition endswith :: "string \<Rightarrow> string \<Rightarrow> bool" where
  "endswith s suf = (length suf \<le> length s \<and> drop (length s - length suf) s = suf)"

text \<open>\<^verbatim>\<open>str(n)\<close> for an integer: its decimal digits, with a sign when negative.\<close>

fun str_nat :: "nat \<Rightarrow> string" where
  "str_nat n =
     (if n < 10 then [''0123456789'' ! n]
      else str_nat (n div 10) @ [''0123456789'' ! (n mod 10)])"

declare str_nat.simps [simp del]

definition str_int :: "int \<Rightarrow> string" where
  "str_int i = (if i < 0 then CHR ''-'' # str_nat (nat (- i)) else str_nat (nat i))"

section \<open>The storage collaborator\<close>

text \<open>
  The three \<^verbatim>\<open>os\<close> calls of the program, each returning its value or the exception it
  raises: \<^verbatim>\<open>os.listdir(path)\<close>, \<^verbatim>\<open>os.statvfs(path)\<close> and \<^verbatim>\<open>os.stat(path)\<close> (the
  last two return tuples of integers).
\<close>

record filesystem =
  listdir :: "string \<Rightarrow> py_error + string list"
  statvfs :: "string \<Rightarrow> py_error + int list"
  stat :: "string \<Rightarrow> py_error + int list"

text \<open>
  \<^verbatim>\<open>is_sd_card_available\<close>: the inner handlers catch \<^verbatim>\<open>OSError\<close> (and
  \<^verbatim>\<open>AttributeError\<close> around \<^verbatim>\<open>statvfs\<close>), the outer one everything else; all of them
  return \<^verbatim>\<open>False\<close> except the fallback listing after a failed \<^verbatim>\<open>statvfs\<close>.
\<close>

definition is_sd_card_available :: "filesystem \<Rightarrow> bool" where
  "is_sd_card_available fs =
     (case listdir fs ''/'' of
        Inl e \<Rightarrow> False
      | Inr root_contents \<Rightarrow>
          if ''sd'' \<notin> set root_contents then False
          else (case listdir fs ''/sd'' of
                  Inl e \<Rightarrow> False
                | Inr sd_contents \<Rightarrow>
                    (case statvfs fs ''/sd'' of
                       Inr st \<Rightarrow>
                         (case py_index st 3 of
                            Inl e \<Rightarrow> False
                          | Inr f_bavail \<Rightarrow> (if f_bavail > 0 then True else False))
                     | Inl e \<Rightarrow>
                         if e = OSError \<or> e = AttributeError
                         then (case listdir fs ''/sd'' of Inl e' \<Rightarrow> False | Inr l \<Rightarrow> True)
                         else False)))"

section \<open>Bitmaps, the display and the program state\<close>

text \<open>
  A \<^verbatim>\<open>displayio.Bitmap\<close>: its size and its pixels, row by row. Writing
  \<^verbatim>\<open>bitmap[x, y] = v\<close> outside the bitmap raises \<^verbatim>\<open>IndexError\<close>.
\<close>

record bitmap =
  bm_width :: nat
  bm_height :: nat
  bm_pixels :: "nat list"

definition set_pixel :: "bitmap \<Rightarrow> nat \<Rightarrow> nat \<Rightarrow> nat \<Rightarrow> py_error + bitmap" where
  "set_pixel b x y v =
     (if x < bm_width b \<and> y < bm_height b
      then Inr (b\<lparr>bm_pixels := (bm_pixels b)[y * bm_width b + x := v]\<rparr>)
      else Inl IndexError)"

text \<open>
  The nested loops \<^verbatim>\<open>for y in range(h): for x in range(w): buffer[x, y] = 0x0000\<close>
  of \<^verbatim>\<open>exit_gallery_mode\<close> and \<^verbatim>\<open>show_image_info_fallback\<close>; the first write that
  raises ends them.
\<close>

fun clear_row :: "nat list \<Rightarrow> nat \<Rightarrow> bitmap \<Rightarrow> py_error + bitmap" where
  "clear_row [] y b = Inr b"
| "clear_row (x # xs) y b =
     (case set_pixel b x y 0 of Inl e \<Rightarrow> Inl e | Inr b' \<Rightarrow> clear_row xs y b')"

fun clear_rows :: "nat list \<Rightarrow> nat \<Rightarrow> bitmap \<Rightarrow> py_error + bitmap" where
  "clear_rows [] w b = Inr b"
| "clear_rows (y # ys) w b =
     (case clear_row [0..<w] y b of Inl e \<Rightarrow> Inl e | Inr b' \<Rightarrow> clear_rows ys w b')"

definition clear_buffer :: "nat \<Rightarrow> nat \<Rightarrow> bitmap \<Rightarrow> py_error + bitmap" where
  "clear_buffer w h b = clear_rows [0..<h] w b"

text \<open>
  A \<^verbatim>\<open>displayio.TileGrid\<close> as the gallery places it: the bitmap, the palette of a GIF
  (\<^verbatim>\<open>None\<close> stands for the RGB565 colour converter of a JPEG) and its position.
\<close>

record tilegrid =
  tg_bitmap :: bitmap
  tg_palette :: "nat list option"
  tg_x :: int
  tg_y :: int

text \<open>
  What the program does to the display, the camera and the card, in the order it does
  it. Console output (\<^verbatim>\<open>print\<close>) and \<^verbatim>\<open>gc.collect()\<close> are left out. Sleeps and
  the tone's duration are in milliseconds, colours are the 24-bit values of the source.
  \<^verbatim>\<open>FreezeCameraSettings\<close> stands for reading the automatic exposure, gain and white
  balance and setting them as fixed values, \<^verbatim>\<open>ReleaseCameraSettings\<close> for handing the
  three back to the camera's automatics.
\<close>

datatype event =
    DisplayMessage string nat
  | Sleep nat
  | Blit bitmap
  | Refresh
  | LivePreviewMode
  | CaptureJpeg
  | OpenNextImage string
  | GifWriterEnter
  | GifAddFrame bitmap
  | GifWriterExit
  | FileClose
  | Autofocus
  | Tone nat nat
  | SelectSetting "string option"
  | FreezeCameraSettings
  | ReleaseCameraSettings

text \<open>
  The handle that \<^verbatim>\<open>jpegio.JpegDecoder()\<close> returns. \<^verbatim>\<open>open(path)\<close> gives the native
  width and height or raises; \<^verbatim>\<open>decode(bitmap, scale=k)\<close>, for the file opened last,
  gives the pixels it writes into the bitmap or raises.
\<close>

record jpeg_decoder_obj =
  jd_open :: "string \<Rightarrow> py_error + nat \<times> nat"
  jd_decode :: "string \<Rightarrow> bitmap \<Rightarrow> int \<Rightarrow> py_error + nat list"

text \<open>
  The module's globals, the attributes of the \<^verbatim>\<open>pycam\<close> object that the program reads
  or writes, and the effects so far. \<^verbatim>\<open>timelapse_interval\<close> is the value of
  \<^verbatim>\<open>pycam.timelapse_rates[pycam.timelapse_rate]\<close>; \<^verbatim>\<open>gallery_group\<close> is \<^verbatim>\<open>None\<close> while
  \<^verbatim>\<open>pycam\<close> has no such attribute, and \<^verbatim>\<open>gallery_group_in_root\<close> says whether the
  display's root group holds it; \<^verbatim>\<open>display_brightness\<close> is in percent;
  \<^verbatim>\<open>frames_taken\<close> counts the frames pulled from the sensor. The globals of the
  battery monitor (the pin, the history of voltages, the time of the last reading) hold
  floating-point readings and are not part of the state.
\<close>

record state =
  last_frame :: bitmap
  onionskin :: bitmap
  timelapse_remaining :: "int option"
  timelapse_timestamp :: "int option"
  curr_setting :: int
  jpeg_decoder :: "jpeg_decoder_obj option"
  gallery_mode :: bool
  gallery_images :: "string list"
  gallery_index :: int
  gallery_image_buffer :: "bitmap option"
  gallery_zoom_level :: int
  mode_text :: string
  mode_label :: string
  stop_motion_frame :: int
  timelapse_submode :: int
  timelapse_submode_label :: string
  timelapsestatus_label :: string
  timelapse_interval :: int
  camera_width :: nat
  camera_height :: nat
  display_width :: nat
  display_height :: nat
  display_brightness :: nat
  gallery_group :: "tilegrid list option"
  gallery_group_in_root :: bool
  frames_taken :: nat
  effects :: "event list"

text \<open>
  The world outside the program during one handler call: the card, the sensor's frames,
  what \<^verbatim>\<open>pycam.capture_jpeg()\<close> does (its result, or the exception it raises), whether
  \<^verbatim>\<open>displayio.Bitmap(w, h, 65535)\<close> can be allocated, what \<^verbatim>\<open>adafruit_imageload\<close>
  makes of a GIF, the successive readings of \<^verbatim>\<open>time.time()\<close> and
  \<^verbatim>\<open>time.monotonic()\<close>, and for a recording: whether \<^verbatim>\<open>open_next_image\<close>, the
  \<^verbatim>\<open>GifWriter\<close> constructor and the k-th \<^verbatim>\<open>add_frame\<close> raise, and what the shutter
  pin reads after k frames; at startup, what \<^verbatim>\<open>jpegio.JpegDecoder()\<close> returns or raises;
  what \<^verbatim>\<open>getattr(pycam, key)\<close> reads and what \<^verbatim>\<open>setattr(pycam, key, value)\<close> does, the
  property setters being the camera library's; and the result of
  \<^verbatim>\<open>battery_percentage(get_battery_voltage())\<close>, a floating-point average of readings of
  the battery pin.
\<close>

record env =
  fs :: filesystem
  live_frames :: "nat \<Rightarrow> bitmap"
  capture_jpeg_result :: "py_error + pyval"
  bitmap_alloc :: "nat \<Rightarrow> nat \<Rightarrow> py_error option"
  gif_load :: "string \<Rightarrow> py_error + bitmap \<times> nat list"
  time_time :: "nat \<Rightarrow> int"
  monotonic :: "nat \<Rightarrow> int"
  open_next_image :: "py_error option"
  gif_writer_init :: "py_error option"
  add_frame :: "nat \<Rightarrow> py_error option"
  shutter_button_value :: "nat \<Rightarrow> bool"
  jpeg_decoder_new :: "py_error + jpeg_decoder_obj"
  pycam_getattr :: "string \<Rightarrow> state \<Rightarrow> int"
  pycam_setattr :: "string \<Rightarrow> int \<Rightarrow> state \<Rightarrow> py_error + state"
  battery_percent :: int

definition emit :: "event list \<Rightarrow> state \<Rightarrow> state" where
  "emit es s = s\<lparr>effects := effects s @ es\<rparr>"

definition continuous_capture :: "env \<Rightarrow> state \<Rightarrow> bitmap \<times> state" where
  "continuous_capture e s =
     (live_frames e (frames_taken s), s\<lparr>frames_taken := frames_taken s + 1\<rparr>)"

section \<open>Scanning the card for gallery images\<close>

definition is_image_name :: "string \<Rightarrow> bool" where
  "is_image_name file =
     (let file_lower = lower file
      in endswith file_lower ''.jpg'' \<or> endswith file_lower ''.jpeg''
         \<or> endswith file_lower ''.gif'')"

text \<open>
  \<^verbatim>\<open>scan_gallery_images\<close> returns the list it also leaves in the global
  \<^verbatim>\<open>gallery_images\<close>: empty without a card or when the listing raises, otherwise the
  listed names with an image extension, sorted as Python sorts strings (code point by
  code point, a proper prefix first).
\<close>

definition scan_gallery_images :: "env \<Rightarrow> state \<Rightarrow> string list \<times> state" where
  "scan_gallery_images e s =
     (if \<not> is_sd_card_available (fs e) then ([], s\<lparr>gallery_images := []\<rparr>)
      else (case listdir (fs e) ''/sd'' of
              Inl err \<Rightarrow> ([], s\<lparr>gallery_images := []\<rparr>)
            | Inr files \<Rightarrow>
                (let found = sort (filter is_image_name files)
                 in (found, s\<lparr>gallery_images := found\<rparr>))))"

section \<open>Decoding stored images\<close>

definition new_bitmap :: "env \<Rightarrow> nat \<Rightarrow> nat \<Rightarrow> py_error + bitmap" where
  "new_bitmap e w h =
     (case bitmap_alloc e w h of
        Some err \<Rightarrow> Inl err
      | None \<Rightarrow> Inr \<lparr>bm_width = w, bm_height = h, bm_pixels = replicate (w * h) 0\<rparr>)"

definition get_current_scale_factor :: "state \<Rightarrow> int" where
  "get_current_scale_factor s = gallery_zoom_level s"

text \<open>
  \<^verbatim>\<open>load_jpeg_file\<close>: \<^verbatim>\<open>None\<close> without a decoder, and whenever anything inside its
  \<^verbatim>\<open>try\<close> raises. The zoom level indexes \<^verbatim>\<open>scale_factors = [1, 2, 4, 8]\<close> and is also
  the \<^verbatim>\<open>scale\<close> handed to the decoder.
\<close>

definition load_jpeg_file :: "env \<Rightarrow> state \<Rightarrow> string \<Rightarrow> bitmap option" where
  "load_jpeg_file e s filename =
     (case jpeg_decoder s of
        None \<Rightarrow> None
      | Some dec \<Rightarrow>
          (let file_path = ''/sd/'' @ filename in
           case jd_open dec file_path of
             Inl err \<Rightarrow> None
           | Inr (original_width, original_height) \<Rightarrow>
               (let scale = get_current_scale_factor s in
                case py_index [1, 2, 4, 8] scale of
                  Inl err \<Rightarrow> None
                | Inr scale_factor \<Rightarrow>
                    (let scaled_width = original_width div scale_factor;
                         scaled_height = original_height div scale_factor
                     in case new_bitmap e scaled_width scaled_height of
                          Inl err \<Rightarrow> None
                        | Inr jpeg_bitmap \<Rightarrow>
                            (case jd_decode dec file_path jpeg_bitmap scale of
                               Inl err \<Rightarrow> None
                             | Inr px \<Rightarrow> Some (jpeg_bitmap\<lparr>bm_pixels := px\<rparr>))))))"

definition load_gif_file :: "env \<Rightarrow> string \<Rightarrow> bitmap option \<times> nat list option" where
  "load_gif_file e filename =
     (case gif_load e (''/sd/'' @ filename) of
        Inl err \<Rightarrow> (None, None)
      | Inr (bmp, palette) \<Rightarrow> (Some bmp, Some palette))"

definition load_image_file :: "env \<Rightarrow> state \<Rightarrow> string \<Rightarrow> bitmap option \<times> nat list option" where
  "load_image_file e s filename =
     (let filename_lower = lower filename in
      if endswith filename_lower ''.jpg'' \<or> endswith filename_lower ''.jpeg''
      then (load_jpeg_file e s filename, None)
      else if endswith filename_lower ''.gif'' then load_gif_file e filename
      else (None, None))"

section \<open>Showing the current gallery image\<close>

text \<open>
  \<^verbatim>\<open>show_image_info_fallback\<close>: the text is built from the file's size when
  \<^verbatim>\<open>os.stat\<close> and \<^verbatim>\<open>file_stats[6]\<close> succeed, and says \<^verbatim>\<open>Info unavailable\<close> otherwise.
  Allocating a missing buffer and clearing the buffer are outside the \<^verbatim>\<open>try\<close>: what
  they raise leaves the function.
\<close>

definition info_text_of :: "env \<Rightarrow> state \<Rightarrow> string \<Rightarrow> string" where
  "info_text_of e s filename =
     (let position = str_int (gallery_index s + 1) @ ''/''
                     @ str_int (int (length (gallery_images s)));
          unavailable = position @ [CHR 0x0A] @ filename @ [CHR 0x0A] @ ''Info unavailable''
      in case stat (fs e) (''/sd/'' @ filename) of
           Inl err \<Rightarrow> unavailable
         | Inr file_stats \<Rightarrow>
             (case py_index file_stats 6 of
                Inl err \<Rightarrow> unavailable
              | Inr file_size \<Rightarrow>
                  (let size_kb = file_size div 1024;
                       filename_lower = lower filename;
                       format_info =
                         (if endswith filename_lower ''.jpg'' \<or> endswith filename_lower ''.jpeg''
                          then ''JPEG (load failed)''
                          else if endswith filename_lower ''.gif'' then ''GIF (load failed)''
                          else ''Unknown format'')
                   in position @ [CHR 0x0A] @ filename @ [CHR 0x0A] @ format_info
                      @ [CHR 0x0A] @ str_int size_kb @ ''KB'')))"

definition show_image_info_fallback :: "env \<Rightarrow> string \<Rightarrow> state \<Rightarrow> py_error + state" where
  "show_image_info_fallback e filename s =
     (let info_text = info_text_of e s filename in
      case (case gallery_image_buffer s of
              None \<Rightarrow> new_bitmap e (camera_width s) (camera_height s)
            | Some b \<Rightarrow> Inr b) of
        Inl err \<Rightarrow> Inl err
      | Inr buf \<Rightarrow>
          (case clear_buffer (camera_width s) (camera_height s) buf of
             Inl err \<Rightarrow> Inl err
           | Inr buf' \<Rightarrow>
               Inr (emit [Blit buf', Refresh, DisplayMessage info_text 0xFFFFFF]
                      (s\<lparr>gallery_image_buffer := Some buf'\<rparr>))))"

text \<open>
  \<^verbatim>\<open>display_current_image\<close>. A bitmap object is always true in a condition; a palette
  is true unless it is \<^verbatim>\<open>None\<close> or has no entries. \<^verbatim>\<open>displayio.TileGrid(bitmap, ...)\<close>
  makes one tile of the whole bitmap and raises \<^verbatim>\<open>ValueError\<close> for a bitmap without
  width or height; it is called outside any \<^verbatim>\<open>try\<close>, so that exception leaves the
  function. The tile grid is centred, its overlay group is created and attached to the
  root group on first use, emptied, and given the new grid.
\<close>

definition centre :: "nat \<Rightarrow> nat \<Rightarrow> int" where
  "centre disp img =
     (if img \<le> disp then (int disp - int img) div 2 else (- (int img - int disp)) div 2)"

definition make_tilegrid :: "bitmap \<Rightarrow> nat list option \<Rightarrow> py_error + tilegrid" where
  "make_tilegrid bmp shader =
     (if bm_width bmp = 0 \<or> bm_height bmp = 0 then Inl ValueError
      else Inr \<lparr>tg_bitmap = bmp, tg_palette = shader, tg_x = 0, tg_y = 0\<rparr>)"

definition display_current_image :: "env \<Rightarrow> state \<Rightarrow> py_error + state" where
  "display_current_image e s =
     (if gallery_images s = [] \<or> gallery_index s \<ge> int (length (gallery_images s))
      then Inr (emit [DisplayMessage ''No Image'' 0xFF0000] s)
      else (case py_index (gallery_images s) (gallery_index s) of
              Inl err \<Rightarrow> Inl err
            | Inr current_file \<Rightarrow>
                (case load_image_file e s current_file of
                   (None, loaded_palette) \<Rightarrow> show_image_info_fallback e current_file s
                 | (Some loaded_bitmap, loaded_palette) \<Rightarrow>
                     (case make_tilegrid loaded_bitmap
                             (if loaded_palette \<noteq> None \<and> loaded_palette \<noteq> Some []
                              then loaded_palette else None) of
                        Inl err \<Rightarrow> Inl err
                      | Inr tg0 \<Rightarrow>
                          (let tg = tg0\<lparr>tg_x := centre (display_width s) (bm_width loaded_bitmap),
                                        tg_y := centre (display_height s) (bm_height loaded_bitmap)\<rparr>;
                               s1 = (if gallery_group s = None
                                     then s\<lparr>gallery_group := Some [], gallery_group_in_root := True\<rparr>
                                     else s)
                           in Inr (emit [Refresh] (s1\<lparr>gallery_group := Some [tg]\<rparr>)))))))"

section \<open>Gallery controls\<close>

definition gallery_zoom_in :: "env \<Rightarrow> state \<Rightarrow> py_error + state" where
  "gallery_zoom_in e s =
     (if gallery_zoom_level s > 1
      then display_current_image e (s\<lparr>gallery_zoom_level := gallery_zoom_level s - 1\<rparr>)
      else Inr s)"

definition gallery_zoom_out :: "env \<Rightarrow> state \<Rightarrow> py_error + state" where
  "gallery_zoom_out e s =
     (if gallery_zoom_level s < 3
      then display_current_image e (s\<lparr>gallery_zoom_level := gallery_zoom_level s + 1\<rparr>)
      else Inr s)"

definition gallery_navigate :: "env \<Rightarrow> int \<Rightarrow> state \<Rightarrow> py_error + state" where
  "gallery_navigate e direction s =
     (if gallery_images s = [] then Inr s
      else (let moved = gallery_index s + direction;
                wrapped = (if moved < 0 then int (length (gallery_images s)) - 1
                           else if moved \<ge> int (length (gallery_images s)) then 0
                           else moved)
            in display_current_image e (s\<lparr>gallery_index := wrapped\<rparr>)))"

text \<open>
  \<^verbatim>\<open>exit_gallery_mode\<close>: the globals are reset first; clearing the buffer is outside
  the \<^verbatim>\<open>try\<close>; the overlay group is detached and the attribute deleted; the live
  preview is restored and confirmed.
\<close>

definition exit_gallery_mode :: "state \<Rightarrow> py_error + state" where
  "exit_gallery_mode s =
     (let s1 = s\<lparr>gallery_mode := False, gallery_images := [], gallery_index := 0\<rparr> in
      case (case gallery_image_buffer s1 of
              None \<Rightarrow> Inr None
            | Some b \<Rightarrow>
                (case clear_buffer (camera_width s1) (camera_height s1) b of
                   Inl err \<Rightarrow> Inl err
                 | Inr b' \<Rightarrow> Inr (Some b'))) of
        Inl err \<Rightarrow> Inl err
      | Inr buf \<Rightarrow>
          (let s2 = s1\<lparr>gallery_image_buffer := buf\<rparr>;
               s3 = (if gallery_group s2 \<noteq> None
                     then s2\<lparr>gallery_group := None, gallery_group_in_root := False\<rparr>
                     else s2)
           in Inr (emit [LivePreviewMode, Refresh, Sleep 200, Refresh, Sleep 100, Refresh,
                         DisplayMessage ''Camera Mode'' 0x00FF00, Sleep 500] s3)))"

definition enter_gallery_mode :: "env \<Rightarrow> state \<Rightarrow> py_error + state" where
  "enter_gallery_mode e s =
     (let s1 = s\<lparr>gallery_mode := True, gallery_index := 0, gallery_zoom_level := 1\<rparr>;
          (images, s2) = scan_gallery_images e s1
      in if images = []
         then exit_gallery_mode (emit [DisplayMessage ''No Photos'' 0xFFFF00, Sleep 1000] s2)
         else display_current_image e
                (emit [DisplayMessage ''Gallery Mode'' 0x00FF00, Sleep 500] s2))"

section \<open>Capturing to the card\<close>

definition show_capture_status :: "bool \<Rightarrow> bool \<Rightarrow> state \<Rightarrow> state" where
  "show_capture_status success preview_only s =
     (if preview_only then emit [DisplayMessage ''Preview Only'' 0xFFFF00, Sleep 1000] s
      else if success then emit [DisplayMessage ''Saved!'' 0x00FF00] s
      else emit [DisplayMessage ''Failed'' 0xFF0000, Sleep 500] s)"

text \<open>
  A capture function runs on the state and returns a value or raises, leaving the state
  it reached; \<^verbatim>\<open>None\<close> stands for a call that never returns.
  \<^verbatim>\<open>safe_capture_operation\<close> does not call it without a card, and catches
  \<^verbatim>\<open>TypeError\<close>, \<^verbatim>\<open>RuntimeError\<close> and \<^verbatim>\<open>OSError\<close> only: any other exception leaves
  the wrapper and, as no caller catches it, the control loop.
\<close>

type_synonym capture_func = "state \<Rightarrow> ((py_error + pyval) \<times> state) option"

definition safe_capture_operation ::
  "env \<Rightarrow> capture_func \<Rightarrow> state \<Rightarrow> (py_error + pyval \<times> state) option" where
  "safe_capture_operation e capture_func s =
     (if \<not> is_sd_card_available (fs e)
      then Some (Inr (PyBool False, show_capture_status True True s))
      else (case capture_func s of
              None \<Rightarrow> None
            | Some (Inr result, s1) \<Rightarrow> Some (Inr (result, show_capture_status True False s1))
            | Some (Inl err, s1) \<Rightarrow>
                if err = TypeError \<or> err = RuntimeError \<or> err = OSError
                then Some (Inr (PyBool False, show_capture_status False False s1))
                else Some (Inl err)))"

text \<open>
  The camera library's \<^verbatim>\<open>pycam.capture_jpeg()\<close> and
  \<^verbatim>\<open>pycam.capture_into_bitmap(bitmap)\<close>: the first is logged and ends as the world
  says, the second puts the sensor's next frame into the bitmap.
\<close>

definition capture_jpeg :: "env \<Rightarrow> capture_func" where
  "capture_jpeg e s = Some (capture_jpeg_result e, emit [CaptureJpeg] s)"

definition capture_into_last_frame :: "env \<Rightarrow> state \<Rightarrow> state" where
  "capture_into_last_frame e s =
     (let (frame, s1) = continuous_capture e s in s1\<lparr>last_frame := frame\<rparr>)"

definition blit_live :: "env \<Rightarrow> state \<Rightarrow> state" where
  "blit_live e s = (let (frame, s1) = continuous_capture e s in emit [Blit frame] s1)"

definition handle_stop_motion_capture :: "env \<Rightarrow> state \<Rightarrow> (py_error + state) option" where
  "handle_stop_motion_capture e s =
     (let s1 = capture_into_last_frame e s;
          s2 = s1\<lparr>stop_motion_frame := stop_motion_frame s1 + 1\<rparr>;
          s3 = emit [DisplayMessage ''Snap!'' 0x0000FF] s2
      in case safe_capture_operation e (capture_jpeg e) s3 of
           None \<Rightarrow> None
         | Some (Inl err) \<Rightarrow> Some (Inl err)
         | Some (Inr (result, s4)) \<Rightarrow> Some (Inr (emit [LivePreviewMode] s4)))"

section \<open>Time lapse\<close>

text \<open>
  \<^verbatim>\<open>handle_timelapse_mode\<close>. \<^verbatim>\<open>time_time e 0\<close> is the clock read for the remaining
  time, \<^verbatim>\<open>time_time e 1\<close> the clock read when the next capture is scheduled.
  Subtracting from a timestamp that is still \<^verbatim>\<open>None\<close> raises \<^verbatim>\<open>TypeError\<close>.
\<close>

definition handle_timelapse_mode :: "env \<Rightarrow> state \<Rightarrow> (py_error + state) option" where
  "handle_timelapse_mode e s =
     (case (case timelapse_remaining s of
              None \<Rightarrow> Inr (s\<lparr>timelapsestatus_label := ''STOP''\<rparr>)
            | Some old \<Rightarrow>
                (case timelapse_timestamp s of
                   None \<Rightarrow> Inl TypeError
                 | Some ts \<Rightarrow>
                     (let r = ts - time_time e 0
                      in Inr (s\<lparr>timelapse_remaining := Some r,
                                timelapsestatus_label := str_int r @ ''s /    ''\<rparr>)))) of
        Inl err \<Rightarrow> Some (Inl err)
      | Inr s1 \<Rightarrow>
          (let s2 = (if timelapse_remaining s1 = None \<or> timelapse_submode_label s1 = ''HiPwr''
                     then blit_live e s1 else s1);
               s3 = s2\<lparr>display_brightness :=
                          (if timelapse_submode_label s2 = ''LowPwr''
                              \<and> timelapse_remaining s2 \<noteq> None then 5 else 100)\<rparr>;
               s4 = emit [Refresh] s3
           in case timelapse_remaining s4 of
                None \<Rightarrow> Some (Inr s4)
              | Some r \<Rightarrow>
                  if r \<le> 0
                  then (let s5 = emit [DisplayMessage ''Snap!'' 0x0000FF] (blit_live e s4)
                        in case safe_capture_operation e (capture_jpeg e) s5 of
                             None \<Rightarrow> None
                           | Some (Inl err) \<Rightarrow> Some (Inl err)
                           | Some (Inr (result, s6)) \<Rightarrow>
                               (let s7 = blit_live e (emit [LivePreviewMode, Refresh] s6)
                                in Some (Inr (s7\<lparr>timelapse_timestamp :=
                                     Some (time_time e 1 + timelapse_interval s7 + 1)\<rparr>))))
                  else Some (Inr s4)))"

section \<open>Recording an animated GIF\<close>

text \<open>
  The loop \<^verbatim>\<open>while (i < 15) or not pycam.shutter_button.value\<close>, entered with \<^verbatim>\<open>i\<close>
  frames recorded and the last clock reading \<^verbatim>\<open>t0\<close>. The shutter pin reads true while
  the button is up. Each round takes a frame, adds it to the writer, shows it and reads
  the clock; \<^verbatim>\<open>1 / (t1 - t0)\<close> raises \<^verbatim>\<open>ZeroDivisionError\<close> when the clock has not
  moved. A loop that never ends has the value \<^verbatim>\<open>None\<close>.
\<close>

partial_function (option) gif_loop ::
  "env \<Rightarrow> nat \<Rightarrow> int \<Rightarrow> state \<Rightarrow> ((py_error + nat \<times> int) \<times> state) option" where
  "gif_loop e i t0 s =
     (if i < 15 \<or> \<not> shutter_button_value e i
      then (let s1 = snd (continuous_capture e s);
                gifframe = fst (continuous_capture e s)
            in case add_frame e (i + 1) of
                 Some err \<Rightarrow> Some (Inl err, s1)
               | None \<Rightarrow>
                   (let s2 = emit [GifAddFrame gifframe, Blit gifframe] s1;
                        t1 = monotonic e (i + 1)
                    in if t1 = t0 then Some (Inl ZeroDivisionError, s2)
                       else gif_loop e (i + 1) t1 s2))
      else Some (Inr (i, t0), s))"

declare gif_loop.simps [code]

text \<open>
  \<^verbatim>\<open>capture_animated_gif\<close>: the writer's \<^verbatim>\<open>with\<close> block is left on every path out of
  the loop; the lines after it, with \<^verbatim>\<open>f.close()\<close>, run only when the loop ended
  normally. \<^verbatim>\<open>i / (t1 - t00)\<close> raises when the last reading equals the first.
\<close>

definition capture_animated_gif :: "env \<Rightarrow> capture_func" where
  "capture_animated_gif e s =
     (case open_next_image e of
        Some err \<Rightarrow> Some (Inl err, s)
      | None \<Rightarrow>
          (let s1 = emit [Refresh] ((emit [OpenNextImage ''gif''] s)\<lparr>mode_label := ''RECORDING''\<rparr>)
           in case gif_writer_init e of
                Some err \<Rightarrow> Some (Inl err, s1)
              | None \<Rightarrow>
                  (case gif_loop e 0 (monotonic e 0) (emit [GifWriterEnter] s1) of
                     None \<Rightarrow> None
                   | Some (Inl err, s2) \<Rightarrow> Some (Inl err, emit [GifWriterExit] s2)
                   | Some (Inr (i, t1), s2) \<Rightarrow>
                       (let s3 = (emit [GifWriterExit] s2)\<lparr>mode_label := ''GIF''\<rparr>
                        in if t1 = monotonic e 0 then Some (Inl ZeroDivisionError, s3)
                           else Some (Inr (PyBool True), emit [FileClose, Refresh] s3)))))"

definition handle_gif_capture :: "env \<Rightarrow> state \<Rightarrow> (py_error + state) option" where
  "handle_gif_capture e s =
     (case safe_capture_operation e (capture_animated_gif e) s of
        None \<Rightarrow> None
      | Some (Inl err) \<Rightarrow> Some (Inl err)
      | Some (Inr (result, s1)) \<Rightarrow> Some (Inr s1))"

section \<open>Buttons\<close>

definition handle_select_button :: "env \<Rightarrow> state \<Rightarrow> py_error + state" where
  "handle_select_button e s =
     (if mode_text s = ''LAPS''
      then Inr (emit [Refresh] (s\<lparr>timelapse_submode := timelapse_submode s + 1\<rparr>))
      else (let s1 = s\<lparr>gallery_mode := \<not> gallery_mode s\<rparr>
            in if gallery_mode s1 then enter_gallery_mode e s1 else exit_gallery_mode s1))"

text \<open>
  The debounced buttons of one tick: the \<^verbatim>\<open>fell\<close> edge of each key, and the shutter's
  long-press flag and short-press count.
\<close>

record buttons =
  up_fell :: bool
  down_fell :: bool
  left_fell :: bool
  right_fell :: bool
  select_fell :: bool
  ok_fell :: bool
  shutter_long_press :: bool
  shutter_short_count :: nat

text \<open>A run of \<^verbatim>\<open>if pressed: handler()\<close> statements; what a handler raises ends it.\<close>

definition when_pressed :: "bool \<Rightarrow> (state \<Rightarrow> py_error + state) \<Rightarrow> state \<Rightarrow> py_error + state" where
  "when_pressed pressed handler s = (if pressed then handler s else Inr s)"

fun in_turn :: "(state \<Rightarrow> py_error + state) list \<Rightarrow> state \<Rightarrow> py_error + state" where
  "in_turn [] s = Inr s"
| "in_turn (h # hs) s = (case h s of Inl err \<Rightarrow> Inl err | Inr s' \<Rightarrow> in_turn hs s')"

definition handle_gallery_buttons :: "env \<Rightarrow> buttons \<Rightarrow> state \<Rightarrow> py_error + state" where
  "handle_gallery_buttons e b s =
     (if \<not> is_sd_card_available (fs e)
      then exit_gallery_mode
             (emit [DisplayMessage (''SD Card'' @ [CHR 0x0A] @ ''Removed'') 0xFF0000, Sleep 1000] s)
      else in_turn
             [when_pressed (left_fell b) (gallery_navigate e (- 1)),
              when_pressed (right_fell b) (gallery_navigate e 1),
              when_pressed (select_fell b) (handle_select_button e),
              when_pressed (shutter_short_count b \<noteq> 0) exit_gallery_mode,
              when_pressed (up_fell b) (gallery_zoom_in e),
              when_pressed (down_fell b) (gallery_zoom_out e)] s)"

text \<open>
  The shutter in camera mode: a long press focuses, a short press runs the capture of
  the current mode. The Game Boy capture writes the last frame as a one-frame GIF and
  leaves the file open; the JPEG capture beeps first.
\<close>

definition capture_gameboy_gif :: "env \<Rightarrow> capture_func" where
  "capture_gameboy_gif e s =
     (case open_next_image e of
        Some err \<Rightarrow> Some (Inl err, s)
      | None \<Rightarrow>
          (let s1 = emit [OpenNextImage ''gif''] s
           in case gif_writer_init e of
                Some err \<Rightarrow> Some (Inl err, s1)
              | None \<Rightarrow>
                  (case add_frame e 1 of
                     Some err \<Rightarrow> Some (Inl err, emit [GifWriterEnter, GifWriterExit] s1)
                   | None \<Rightarrow>
                       Some (Inr (PyBool True),
                             emit [GifWriterEnter, GifAddFrame (last_frame s1), GifWriterExit] s1))))"

definition handle_gameboy_capture :: "env \<Rightarrow> state \<Rightarrow> (py_error + state) option" where
  "handle_gameboy_capture e s =
     (case safe_capture_operation e (capture_gameboy_gif e) s of
        None \<Rightarrow> None
      | Some (Inl err) \<Rightarrow> Some (Inl err)
      | Some (Inr (result, s1)) \<Rightarrow> Some (Inr s1))"

definition handle_jpeg_capture :: "env \<Rightarrow> state \<Rightarrow> (py_error + state) option" where
  "handle_jpeg_capture e s =
     (let s1 = emit [Tone 1500 50, DisplayMessage ''Snap!'' 0x0000FF] s
      in case safe_capture_operation e (capture_jpeg e) s1 of
           None \<Rightarrow> None
         | Some (Inl err) \<Rightarrow> Some (Inl err)
         | Some (Inr (result, s2)) \<Rightarrow> Some (Inr (emit [LivePreviewMode] s2)))"

definition handle_shutter_button :: "env \<Rightarrow> buttons \<Rightarrow> state \<Rightarrow> (py_error + state) option" where
  "handle_shutter_button e b s =
     (let s1 = (if shutter_long_press b then emit [Autofocus] s else s)
      in if shutter_short_count b \<noteq> 0
         then (if mode_text s1 = ''STOP'' then handle_stop_motion_capture e s1
               else if mode_text s1 = ''GBOY'' then handle_gameboy_capture e s1
               else if mode_text s1 = ''GIF'' then handle_gif_capture e s1
               else if mode_text s1 = ''JPEG'' then handle_jpeg_capture e s1
               else Some (Inr s1))
         else Some (Inr s1))"

text \<open>
  The settings ring. Up and down change the selected setting of the camera object by
  one; right and left move the selection, stepping once more (forward, in both
  directions) over \<^verbatim>\<open>timelapse_rate\<close> outside time-lapse mode.
\<close>

definition SETTINGS :: "string option list" where
  "SETTINGS = [None, Some ''resolution'', Some ''effect'', Some ''mode'', Some ''led_level'',
               Some ''led_color'', Some ''timelapse_rate'']"

definition change_setting :: "env \<Rightarrow> int \<Rightarrow> state \<Rightarrow> py_error + state" where
  "change_setting e delta s =
     (case py_index SETTINGS (curr_setting s) of
        Inl err \<Rightarrow> Inl err
      | Inr None \<Rightarrow> Inr s
      | Inr (Some key) \<Rightarrow>
          if key = [] then Inr s else pycam_setattr e key (pycam_getattr e key s + delta) s)"

definition move_setting :: "int \<Rightarrow> state \<Rightarrow> py_error + state" where
  "move_setting moved s =
     (let n = int (length SETTINGS);
          s1 = s\<lparr>curr_setting := moved mod n\<rparr>
      in case py_index SETTINGS (curr_setting s1) of
           Inl err \<Rightarrow> Inl err
         | Inr key \<Rightarrow>
             (let s2 = (if mode_text s1 \<noteq> ''LAPS'' \<and> key = Some ''timelapse_rate''
                        then s1\<lparr>curr_setting := (curr_setting s1 + 1) mod n\<rparr> else s1)
              in case py_index SETTINGS (curr_setting s2) of
                   Inl err \<Rightarrow> Inl err
                 | Inr key' \<Rightarrow> Inr (emit [SelectSetting key'] s2)))"

definition handle_navigation_buttons :: "env \<Rightarrow> buttons \<Rightarrow> state \<Rightarrow> py_error + state" where
  "handle_navigation_buttons e b s =
     in_turn
       [when_pressed (up_fell b) (change_setting e 1),
        when_pressed (down_fell b) (change_setting e (- 1)),
        when_pressed (right_fell b) (\<lambda>s. move_setting (curr_setting s + 1) s),
        when_pressed (left_fell b)
          (\<lambda>s. move_setting (curr_setting s - 1 + int (length SETTINGS)) s)] s"

text \<open>
  OK starts or stops the time lapse in time-lapse mode, and shows the battery level in
  every other mode.
\<close>

definition handle_ok_button :: "env \<Rightarrow> state \<Rightarrow> py_error + state" where
  "handle_ok_button e s =
     (if mode_text s = ''LAPS''
      then (if timelapse_remaining s = None
            then Inr (emit [FreezeCameraSettings]
                        (s\<lparr>timelapse_remaining := Some (timelapse_interval s),
                           timelapse_timestamp :=
                             Some (time_time e 0 + timelapse_interval s + 1)\<rparr>))
            else Inr (emit [ReleaseCameraSettings] (s\<lparr>timelapse_remaining := None\<rparr>)))
      else Inr (emit [DisplayMessage (str_int (battery_percent e) @ ''%'') 0xFFFFFF] s))"

definition handle_camera_buttons :: "env \<Rightarrow> buttons \<Rightarrow> state \<Rightarrow> (py_error + state) option" where
  "handle_camera_buttons e b s =
     (case handle_shutter_button e b s of
        None \<Rightarrow> None
      | Some (Inl err) \<Rightarrow> Some (Inl err)
      | Some (Inr s1) \<Rightarrow>
          Some (in_turn
                  [handle_navigation_buttons e b,
                   when_pressed (select_fell b) (handle_select_button e),
                   when_pressed (ok_fell b) (handle_ok_button e)] s1))"

text \<open>
  \<^verbatim>\<open>handle_all_buttons\<close>, for the buttons as \<^verbatim>\<open>pycam.keys_debounce()\<close> leaves them:
  the gallery handlers when the gallery is active, the camera handlers otherwise.
\<close>

definition handle_all_buttons :: "env \<Rightarrow> buttons \<Rightarrow> state \<Rightarrow> (py_error + state) option" where
  "handle_all_buttons e b s =
     (if gallery_mode s then Some (handle_gallery_buttons e b s)
      else handle_camera_buttons e b s)"

section \<open>Startup\<close>

text \<open>
  \<^verbatim>\<open>init_camera_system\<close>, from the state that holds the attributes of the new
  \<^verbatim>\<open>PyCamera\<close> object: three buffers of the camera's size are allocated, and the
  decoder handle is \<^verbatim>\<open>None\<close> when its constructor raises.
\<close>

definition init_camera_system :: "env \<Rightarrow> state \<Rightarrow> py_error + state" where
  "init_camera_system e s =
     (case new_bitmap e (camera_width s) (camera_height s) of
        Inl err \<Rightarrow> Inl err
      | Inr b1 \<Rightarrow>
          (case new_bitmap e (camera_width s) (camera_height s) of
             Inl err \<Rightarrow> Inl err
           | Inr b2 \<Rightarrow>
               (case new_bitmap e (camera_width s) (camera_height s) of
                  Inl err \<Rightarrow> Inl err
                | Inr b3 \<Rightarrow>
                    Inr (s\<lparr>last_frame := b1, onionskin := b2, gallery_image_buffer := Some b3,
                           jpeg_decoder :=
                             (case jpeg_decoder_new e of
                                Inl err \<Rightarrow> None
                              | Inr dec \<Rightarrow> Some dec)\<rparr>))))"

section \<open>Conditions on states, and sample worlds\<close>

text \<open>
  The gallery buffer exists and covers the camera frame, as \<^verbatim>\<open>init_camera_system\<close>
  leaves it; and, with it, the gallery index is not negative.
\<close>

definition buffer_fits :: "state \<Rightarrow> bool" where
  "buffer_fits s =
     (case gallery_image_buffer s of
        None \<Rightarrow> False
      | Some b \<Rightarrow> camera_width s \<le> bm_width b \<and> camera_height s \<le> bm_height b)"

definition display_ready :: "state \<Rightarrow> bool" where
  "display_ready s = (buffer_fits s \<and> 0 \<le> gallery_index s)"

text \<open>
  A file name either fails to load (and the information screen is shown) or loads to a
  bitmap that has both width and height; and the same of every file of the gallery.
  Loading depends on the state through the decoder handle and the zoom level only.
\<close>

definition loads_nonempty :: "env \<Rightarrow> state \<Rightarrow> string \<Rightarrow> bool" where
  "loads_nonempty e s f =
     (case fst (load_image_file e s f) of
        None \<Rightarrow> True
      | Some b \<Rightarrow> 0 < bm_width b \<and> 0 < bm_height b)"

definition gallery_loads :: "env \<Rightarrow> state \<Rightarrow> bool" where
  "gallery_loads e s = list_all (loads_nonempty e s) (gallery_images s)"

text \<open>Two states agree on the gallery flag, the capture mode and the time-lapse sub-mode.\<close>

definition same_modes :: "state \<Rightarrow> state \<Rightarrow> bool" where
  "same_modes s s' =
     (gallery_mode s' = gallery_mode s \<and> mode_text s' = mode_text s
      \<and> timelapse_submode s' = timelapse_submode s)"

text \<open>\<^verbatim>\<open>gallery_navigate(direction)\<close> called once in each of a sequence of worlds.\<close>

fun navigate_each :: "env list \<Rightarrow> int \<Rightarrow> state \<Rightarrow> py_error + state" where
  "navigate_each [] direction s = Inr s"
| "navigate_each (e # es) direction s =
     (case gallery_navigate e direction s of
        Inl err \<Rightarrow> Inl err
      | Inr s' \<Rightarrow> navigate_each es direction s')"

text \<open>
  The effects of recording \<^verbatim>\<open>m\<close> frames, the first of them the sensor's frame number
  \<^verbatim>\<open>c\<close>: each frame is added to the writer and then shown.
\<close>

definition recorded :: "env \<Rightarrow> nat \<Rightarrow> nat \<Rightarrow> event list" where
  "recorded e c m =
     concat (map (\<lambda>k. [GifAddFrame (live_frames e k), Blit (live_frames e k)]) [c..<c + m])"

text \<open>
  Sample worlds for concrete runs: a card holding the given files, no card at all, a
  decoder that reports 640 by 480 for every file, a camera of 2 by 2 pixels right after
  startup, a shutter released after \<^verbatim>\<open>r\<close> frames, and a tick on which only Select
  was pressed.
\<close>

definition blank_bitmap :: "nat \<Rightarrow> nat \<Rightarrow> bitmap" where
  "blank_bitmap w h = \<lparr>bm_width = w, bm_height = h, bm_pixels = replicate (w * h) 0\<rparr>"

definition card_with :: "string list \<Rightarrow> filesystem" where
  "card_with files =
     \<lparr>listdir = (\<lambda>p. if p = ''/'' then Inr [''sd'']
                       else if p = ''/sd'' then Inr files else Inl OSError),
      statvfs = (\<lambda>p. if p = ''/sd'' then Inr [512, 512, 1000, 500, 500, 0, 0, 0, 0, 255]
                       else Inl OSError),
      stat = (\<lambda>p. Inr [32768, 0, 0, 0, 0, 0, 20480, 0, 0, 0])\<rparr>"

definition no_card :: filesystem where
  "no_card =
     \<lparr>listdir = (\<lambda>p. if p = ''/'' then Inr [] else Inl OSError),
      statvfs = (\<lambda>p. Inl OSError),
      stat = (\<lambda>p. Inl OSError)\<rparr>"

definition vga_decoder :: jpeg_decoder_obj where
  "vga_decoder = \<lparr>jd_open = (\<lambda>p. Inr (640, 480)), jd_decode = (\<lambda>p b k. Inr (bm_pixels b))\<rparr>"

definition world :: "filesystem \<Rightarrow> py_error + pyval \<Rightarrow> nat \<Rightarrow> env" where
  "world files jpeg_result r =
     \<lparr>fs = files,
      live_frames = (\<lambda>k. \<lparr>bm_width = 2, bm_height = 2, bm_pixels = [k + 1, 0, 0, 0]\<rparr>),
      capture_jpeg_result = jpeg_result,
      bitmap_alloc = (\<lambda>w h. None),
      gif_load = (\<lambda>p. Inl OSError),
      time_time = (\<lambda>k. 1000 + 3 * int k),
      monotonic = (\<lambda>k. int k),
      open_next_image = None,
      gif_writer_init = None,
      add_frame = (\<lambda>k. None),
      shutter_button_value = (\<lambda>k. r \<le> k),
      jpeg_decoder_new = Inr vga_decoder,
      pycam_getattr = (\<lambda>key s. 0),
      pycam_setattr = (\<lambda>key v s. Inr s),
      battery_percent = 80\<rparr>"

definition select_only :: buttons where
  "select_only =
     \<lparr>up_fell = False, down_fell = False, left_fell = False, right_fell = False,
      select_fell = True, ok_fell = False, shutter_long_press = False,
      shutter_short_count = 0\<rparr>"

definition fresh_state :: state where
  "fresh_state =
     \<lparr>last_frame = blank_bitmap 2 2,
      onionskin = blank_bitmap 2 2,
      timelapse_remaining = None,
      timelapse_timestamp = None,
      curr_setting = 0,
      jpeg_decoder = Some vga_decoder,
      gallery_mode = False,
      gallery_images = [],
      gallery_index = 0,
      gallery_image_buffer = Some (blank_bitmap 2 2),
      gallery_zoom_level = 1,
      mode_text = ''JPEG'',
      mode_label = ''JPEG'',
      stop_motion_frame = 0,
      timelapse_submode = 0,
      timelapse_submode_label = ''HiPwr'',
      timelapsestatus_label = ''STOP'',
      timelapse_interval = 5,
      camera_width = 2,
      camera_height = 2,
      display_width = 240,
      display_height = 240,
      display_brightness = 100,
      gallery_group = None,
      gallery_group_in_root = False,
      frames_taken = 0,
      effects = []\<rparr>"

text \<open>A gallery session over three files, the second one selected.\<close>

definition browsing :: state where
  "browsing = fresh_state\<lparr>gallery_mode := True,
                 gallery_images := [''a.jpg'', ''b.jpg'', ''c.jpg''], gallery_index := 1\<rparr>"

text \<open>The same session on a device whose decoder failed to start.\<close>

definition no_decoder :: state where
  "no_decoder = fresh_state\<lparr>jpeg_decoder := None, gallery_mode := True,
                  gallery_images := [''a.jpg'', ''b.jpg'', ''c.jpg''], gallery_index := 1\<rparr>"

text \<open>A running time lapse whose next capture was due at 999.\<close>

definition lapsing :: state where
  "lapsing = fresh_state\<lparr>mode_text := ''LAPS'', mode_label := ''LAPS'',
                timelapse_remaining := Some 3, timelapse_timestamp := Some 999\<rparr>"

section \<open>Facts about strings and the card\<close>

lemma lower_append: "lower (a @ b) = lower a @ lower b"
  by (simp add: lower_def)

lemma length_lower: "length (lower s) = length s"
  by (simp add: lower_def)

lemma endswith_lower_iff:
  "endswith (lower f) suf \<longleftrightarrow> (\<exists>stem ext. f = stem @ ext \<and> lower ext = suf)"
proof
  assume h: "endswith (lower f) suf"
  let ?k = "length f - length suf"
  have "f = take ?k f @ drop ?k f" by simp
  moreover have "lower (drop ?k f) = suf"
    using h by (simp add: endswith_def lower_def drop_map)
  ultimately show "\<exists>stem ext. f = stem @ ext \<and> lower ext = suf" by blast
next
  assume "\<exists>stem ext. f = stem @ ext \<and> lower ext = suf"
  then obtain stem ext where f: "f = stem @ ext" and e: "lower ext = suf" by blast
  have "length suf = length ext" using e length_lower by metis
  then show "endswith (lower f) suf"
    using e by (simp add: endswith_def f lower_append length_lower)
qed

lemma is_image_name_iff:
  "is_image_name f \<longleftrightarrow>
     (\<exists>stem ext. f = stem @ ext \<and> lower ext \<in> {''.jpg'', ''.jpeg'', ''.gif''})"
  unfolding is_image_name_def Let_def endswith_lower_iff by blast

lemma card_available: "is_sd_card_available (card_with files)"
  by (simp add: is_sd_card_available_def card_with_def py_index_def)

lemma no_card_unavailable: "\<not> is_sd_card_available no_card"
  by (simp add: is_sd_card_available_def no_card_def)

lemma scan_result:
  assumes "is_sd_card_available (fs e)" and "listdir (fs e) ''/sd'' = Inr files"
  shows "scan_gallery_images e s =
           (sort (filter is_image_name files),
            s\<lparr>gallery_images := sort (filter is_image_name files)\<rparr>)"
  using assms by (simp add: scan_gallery_images_def Let_def)

lemma five_names:
  "is_image_name ''a.gif''" "is_image_name ''B.JPG''" "is_image_name ''c.jpeg''"
  "\<not> is_image_name ''d.txt''" "is_image_name ''e.jpg''"
  by code_simp+

lemma sorted_four: "sorted [''B.JPG'', ''a.gif'', ''c.jpeg'', ''e.jpg'']"
  by code_simp

section \<open>The gallery scan\<close>

text \<open>
  C7. With a card present and its listing readable, the scan returns a sorted list
  holding exactly the listed names that pass the extension filter (each as often as
  listed), and leaves the same list in \<^verbatim>\<open>gallery_images\<close>. A name passes the filter
  exactly when it ends in an extension that is \<^verbatim>\<open>.jpg\<close>, \<^verbatim>\<open>.jpeg\<close> or \<^verbatim>\<open>.gif\<close> once
  lowered, so upper and mixed case are accepted. For the five files a.gif, B.JPG,
  c.jpeg, d.txt, e.jpg, listed in any order, the result is B.JPG, a.gif, c.jpeg, e.jpg.
\<close>

theorem scan_gallery_images_filters_and_sorts:
  assumes "is_sd_card_available (fs e)" and "listdir (fs e) ''/sd'' = Inr files"
  shows "sorted (fst (scan_gallery_images e s))
       \<and> mset (fst (scan_gallery_images e s)) = filter_mset is_image_name (mset files)
       \<and> gallery_images (snd (scan_gallery_images e s)) = fst (scan_gallery_images e s)
       \<and> (\<forall>f. is_image_name f \<longleftrightarrow>
               (\<exists>stem ext. f = stem @ ext \<and> lower ext \<in> {''.jpg'', ''.jpeg'', ''.gif''}))
       \<and> (mset files = mset [''a.gif'', ''B.JPG'', ''c.jpeg'', ''d.txt'', ''e.jpg'']
            \<longrightarrow> fst (scan_gallery_images e s) = [''B.JPG'', ''a.gif'', ''c.jpeg'', ''e.jpg''])"
proof -
  let ?found = "sort (filter is_image_name files)"
  have res: "scan_gallery_images e s = (?found, s\<lparr>gallery_images := ?found\<rparr>)"
    by (rule scan_result[OF assms])
  have scenario: "?found = [''B.JPG'', ''a.gif'', ''c.jpeg'', ''e.jpg'']"
    if m: "mset files = mset [''a.gif'', ''B.JPG'', ''c.jpeg'', ''d.txt'', ''e.jpg'']"
  proof (rule properties_for_sort)
    have "mset (filter is_image_name files) = filter_mset is_image_name (mset files)"
      by simp
    also have "\<dots> = mset (filter is_image_name [''a.gif'', ''B.JPG'', ''c.jpeg'', ''d.txt'', ''e.jpg''])"
      by (simp only: m mset_filter)
    also have "\<dots> = mset [''a.gif'', ''B.JPG'', ''c.jpeg'', ''e.jpg'']"
      using five_names by simp
    also have "\<dots> = mset [''B.JPG'', ''a.gif'', ''c.jpeg'', ''e.jpg'']"
      by simp
    finally show "mset [''B.JPG'', ''a.gif'', ''c.jpeg'', ''e.jpg''] = mset (filter is_image_name files)"
      by simp
    show "sorted [''B.JPG'', ''a.gif'', ''c.jpeg'', ''e.jpg'']" by (rule sorted_four)
  qed
  have c1: "sorted (fst (scan_gallery_images e s))" by (simp add: res)
  have c2: "mset (fst (scan_gallery_images e s)) = filter_mset is_image_name (mset files)"
    by (simp add: res)
  have c3: "gallery_images (snd (scan_gallery_images e s)) = fst (scan_gallery_images e s)"
    by (simp add: res)
  have c5: "mset files = mset [''a.gif'', ''B.JPG'', ''c.jpeg'', ''d.txt'', ''e.jpg'']
            \<longrightarrow> fst (scan_gallery_images e s) = [''B.JPG'', ''a.gif'', ''c.jpeg'', ''e.jpg'']"
    using scenario by (simp only: res fst_conv) blast
  show ?thesis
    using c1 c2 c3 c5 is_image_name_iff by (intro conjI allI)
qed

text \<open>The five files of the scenario, listed in reverse order on a mounted card.\<close>

theorem scan_gallery_images_five_files:
  "is_sd_card_available
     (fs (world (card_with [''e.jpg'', ''d.txt'', ''c.jpeg'', ''B.JPG'', ''a.gif'']) (Inr PyNone) 0))
   \<and> listdir (fs (world (card_with [''e.jpg'', ''d.txt'', ''c.jpeg'', ''B.JPG'', ''a.gif''])
                  (Inr PyNone) 0)) ''/sd''
       = Inr [''e.jpg'', ''d.txt'', ''c.jpeg'', ''B.JPG'', ''a.gif'']
   \<and> fst (scan_gallery_images
            (world (card_with [''e.jpg'', ''d.txt'', ''c.jpeg'', ''B.JPG'', ''a.gif'']) (Inr PyNone) 0)
            fresh_state)
       = [''B.JPG'', ''a.gif'', ''c.jpeg'', ''e.jpg'']"
proof -
  let ?e = "world (card_with [''e.jpg'', ''d.txt'', ''c.jpeg'', ''B.JPG'', ''a.gif'']) (Inr PyNone) 0"
  have a: "is_sd_card_available (fs ?e)" by (simp add: world_def card_available)
  have l: "listdir (fs ?e) ''/sd'' = Inr [''e.jpg'', ''d.txt'', ''c.jpeg'', ''B.JPG'', ''a.gif'']"
    by (simp add: world_def card_with_def)
  have m: "mset [''e.jpg'', ''d.txt'', ''c.jpeg'', ''B.JPG'', ''a.gif'']
           = mset [''a.gif'', ''B.JPG'', ''c.jpeg'', ''d.txt'', ''e.jpg'']"
    by simp
  from scan_gallery_images_filters_and_sorts[OF a l, of fresh_state] m
  have "fst (scan_gallery_images ?e fresh_state) = [''B.JPG'', ''a.gif'', ''c.jpeg'', ''e.jpg'']"
    by blast
  with a l show ?thesis by blast
qed

section \<open>Facts about clearing the buffer and redrawing\<close>

lemma clear_row_ok:
  "\<forall>x\<in>set xs. x < bm_width b \<Longrightarrow> y < bm_height b \<Longrightarrow>
   \<exists>b'. clear_row xs y b = Inr b' \<and> bm_width b' = bm_width b \<and> bm_height b' = bm_height b"
proof (induction xs arbitrary: b)
  case Nil
  then show ?case by simp
next
  case (Cons x xs)
  let ?b1 = "b\<lparr>bm_pixels := (bm_pixels b)[y * bm_width b + x := 0]\<rparr>"
  from Cons.prems have step: "set_pixel b x y 0 = Inr ?b1"
    by (simp add: set_pixel_def)
  have "\<forall>x\<in>set xs. x < bm_width ?b1" "y < bm_height ?b1"
    using Cons.prems by simp_all
  from Cons.IH[OF this] show ?case
    using step by simp
qed

lemma clear_rows_ok:
  "w \<le> bm_width b \<Longrightarrow> \<forall>y\<in>set ys. y < bm_height b \<Longrightarrow>
   \<exists>b'. clear_rows ys w b = Inr b' \<and> bm_width b' = bm_width b \<and> bm_height b' = bm_height b"
proof (induction ys arbitrary: b)
  case Nil
  then show ?case by simp
next
  case (Cons y ys)
  have "\<forall>x\<in>set [0..<w]. x < bm_width b" "y < bm_height b"
    using Cons.prems by simp_all
  from clear_row_ok[OF this] obtain b1 where
    b1: "clear_row [0..<w] y b = Inr b1" "bm_width b1 = bm_width b" "bm_height b1 = bm_height b"
    by blast
  have "w \<le> bm_width b1" "\<forall>y\<in>set ys. y < bm_height b1"
    using Cons.prems b1 by simp_all
  from Cons.IH[OF this] show ?case
    using b1 by simp
qed

lemma clear_buffer_ok:
  assumes "w \<le> bm_width b" and "h \<le> bm_height b"
  shows "\<exists>b'. clear_buffer w h b = Inr b' \<and> bm_width b' = bm_width b \<and> bm_height b' = bm_height b"
  unfolding clear_buffer_def using assms by (intro clear_rows_ok) simp_all

lemma fallback_ok:
  assumes "buffer_fits s"
  shows "\<exists>buf. show_image_info_fallback e f s
                 = Inr (emit [Blit buf, Refresh, DisplayMessage (info_text_of e s f) 0xFFFFFF]
                          (s\<lparr>gallery_image_buffer := Some buf\<rparr>))
               \<and> camera_width s \<le> bm_width buf \<and> camera_height s \<le> bm_height buf"
proof -
  from assms obtain b where b: "gallery_image_buffer s = Some b"
    and fits: "camera_width s \<le> bm_width b" "camera_height s \<le> bm_height b"
    by (auto simp: buffer_fits_def split: option.splits)
  from clear_buffer_ok[OF fits] obtain b' where
    b': "clear_buffer (camera_width s) (camera_height s) b = Inr b'"
        "bm_width b' = bm_width b" "bm_height b' = bm_height b"
    by blast
  have "show_image_info_fallback e f s
          = Inr (emit [Blit b', Refresh, DisplayMessage (info_text_of e s f) 0xFFFFFF]
                   (s\<lparr>gallery_image_buffer := Some b'\<rparr>))"
    by (simp add: show_image_info_fallback_def Let_def b b')
  with fits b' show ?thesis by auto
qed

lemma buffer_fits_index [simp]: "buffer_fits (s\<lparr>gallery_index := k\<rparr>) = buffer_fits s"
  by (simp add: buffer_fits_def split: option.splits)

lemma buffer_fits_zoom [simp]: "buffer_fits (s\<lparr>gallery_zoom_level := k\<rparr>) = buffer_fits s"
  by (simp add: buffer_fits_def split: option.splits)

lemma load_image_file_depends:
  assumes "jpeg_decoder s' = jpeg_decoder s" and "gallery_zoom_level s' = gallery_zoom_level s"
  shows "load_image_file e s' f = load_image_file e s f"
proof -
  have g: "get_current_scale_factor s' = get_current_scale_factor s"
    using assms(2) by (simp add: get_current_scale_factor_def)
  have j: "load_jpeg_file e s' f = load_jpeg_file e s f"
    unfolding load_jpeg_file_def assms(1) g ..
  show ?thesis
    unfolding load_image_file_def j ..
qed

lemma loads_nonempty_depends:
  assumes "jpeg_decoder s' = jpeg_decoder s" and "gallery_zoom_level s' = gallery_zoom_level s"
  shows "loads_nonempty e s' f = loads_nonempty e s f"
  by (simp add: loads_nonempty_def load_image_file_depends[OF assms])

lemma gallery_loads_depends:
  assumes "jpeg_decoder s' = jpeg_decoder s" and "gallery_zoom_level s' = gallery_zoom_level s"
    and "gallery_images s' = gallery_images s"
  shows "gallery_loads e s' = gallery_loads e s"
proof -
  have "loads_nonempty e s' = loads_nonempty e s"
    by (rule ext) (rule loads_nonempty_depends[OF assms(1,2)])
  then show ?thesis by (simp add: gallery_loads_def assms(3))
qed

lemma clear_row_dims:
  "clear_row xs y b = Inr b' \<Longrightarrow> bm_width b' = bm_width b \<and> bm_height b' = bm_height b"
proof (induction xs arbitrary: b)
  case Nil
  then show ?case by simp
next
  case (Cons x xs)
  from Cons.prems obtain b1 where b1: "set_pixel b x y 0 = Inr b1" "clear_row xs y b1 = Inr b'"
    by (auto split: sum.splits)
  from b1(1) have "bm_width b1 = bm_width b \<and> bm_height b1 = bm_height b"
    by (auto simp: set_pixel_def split: if_splits)
  with Cons.IH[OF b1(2)] show ?case by simp
qed

lemma clear_rows_dims:
  "clear_rows ys w b = Inr b' \<Longrightarrow> bm_width b' = bm_width b \<and> bm_height b' = bm_height b"
proof (induction ys arbitrary: b)
  case Nil
  then show ?case by simp
next
  case (Cons y ys)
  from Cons.prems obtain b1 where b1: "clear_row [0..<w] y b = Inr b1" "clear_rows ys w b1 = Inr b'"
    by (auto split: sum.splits)
  from clear_row_dims[OF b1(1)] Cons.IH[OF b1(2)] show ?case by simp
qed

lemma clear_buffer_dims:
  "clear_buffer w h b = Inr b' \<Longrightarrow> bm_width b' = bm_width b \<and> bm_height b' = bm_height b"
  unfolding clear_buffer_def by (rule clear_rows_dims)

text \<open>Whenever the information screen returns, it has changed the buffer and the effects only.\<close>

lemma fallback_frame:
  assumes "show_image_info_fallback e f s = Inr s'"
  shows "\<exists>buf l. s' = s\<lparr>gallery_image_buffer := Some buf, effects := l\<rparr>
           \<and> (buffer_fits s \<longrightarrow> camera_width s \<le> bm_width buf \<and> camera_height s \<le> bm_height buf)"
proof -
  obtain buf0 where b0: "(case gallery_image_buffer s of
              None \<Rightarrow> new_bitmap e (camera_width s) (camera_height s)
            | Some b \<Rightarrow> Inr b) = Inr buf0"
    using assms by (auto simp: show_image_info_fallback_def Let_def split: sum.splits)
  obtain buf where cb: "clear_buffer (camera_width s) (camera_height s) buf0 = Inr buf"
    using assms b0 by (auto simp: show_image_info_fallback_def Let_def split: sum.splits)
  have s': "s' = emit [Blit buf, Refresh, DisplayMessage (info_text_of e s f) 0xFFFFFF]
                  (s\<lparr>gallery_image_buffer := Some buf\<rparr>)"
    using assms b0 cb by (simp add: show_image_info_fallback_def Let_def)
  have dims: "bm_width buf = bm_width buf0" "bm_height buf = bm_height buf0"
    using clear_buffer_dims[OF cb] by simp_all
  have fit: "buffer_fits s \<longrightarrow> camera_width s \<le> bm_width buf \<and> camera_height s \<le> bm_height buf"
    using b0 dims by (auto simp: buffer_fits_def split: option.splits)
  have "s' = s\<lparr>gallery_image_buffer := Some buf,
              effects := effects s @ [Blit buf, Refresh, DisplayMessage (info_text_of e s f) 0xFFFFFF]\<rparr>"
    using s' by (simp add: emit_def)
  with fit show ?thesis by blast
qed

text \<open>
  Whenever \<^verbatim>\<open>display_current_image\<close> returns, it has changed nothing but the buffer, the
  overlay group and the effects, and a buffer that covered the frame still does.
\<close>

lemma display_current_image_frame:
  assumes "display_current_image e s = Inr s'"
  shows "\<exists>b g r l. s' = s\<lparr>gallery_image_buffer := b, gallery_group := g,
                         gallery_group_in_root := r, effects := l\<rparr>
           \<and> (buffer_fits s \<longrightarrow> buffer_fits s')"
proof (cases "gallery_images s = [] \<or> gallery_index s \<ge> int (length (gallery_images s))")
  case True
  with assms have "s' = emit [DisplayMessage ''No Image'' 0xFF0000] s"
    by (simp add: display_current_image_def)
  then have "s' = s\<lparr>gallery_image_buffer := gallery_image_buffer s, gallery_group := gallery_group s,
                     gallery_group_in_root := gallery_group_in_root s,
                     effects := effects s @ [DisplayMessage ''No Image'' 0xFF0000]\<rparr>"
    by (simp add: emit_def)
  moreover from this have "buffer_fits s \<longrightarrow> buffer_fits s'"
    by (simp add: buffer_fits_def split: option.splits)
  ultimately show ?thesis by blast
next
  case False
  with assms obtain f where f: "py_index (gallery_images s) (gallery_index s) = Inr f"
    by (auto simp: display_current_image_def split: sum.splits)
  obtain bo po where ld: "load_image_file e s f = (bo, po)" by (cases "load_image_file e s f")
  show ?thesis
  proof (cases bo)
    case None
    have "show_image_info_fallback e f s = Inr s'"
      using assms False f ld None by (simp add: display_current_image_def)
    from fallback_frame[OF this] obtain buf l where
      s': "s' = s\<lparr>gallery_image_buffer := Some buf, effects := l\<rparr>"
      and fit: "buffer_fits s \<longrightarrow> camera_width s \<le> bm_width buf \<and> camera_height s \<le> bm_height buf"
      by blast
    have "s' = s\<lparr>gallery_image_buffer := Some buf, gallery_group := gallery_group s,
                 gallery_group_in_root := gallery_group_in_root s, effects := l\<rparr>"
      using s' by simp
    moreover have "buffer_fits s \<longrightarrow> buffer_fits s'"
      using fit s' by (simp add: buffer_fits_def)
    ultimately show ?thesis by blast
  next
    case (Some bmp)
    let ?shader = "if po \<noteq> None \<and> po \<noteq> Some [] then po else None"
    from assms False f ld Some obtain tg0 where tg0: "make_tilegrid bmp ?shader = Inr tg0"
      by (auto simp: display_current_image_def split: sum.splits)
    let ?tg = "tg0\<lparr>tg_x := centre (display_width s) (bm_width bmp),
                   tg_y := centre (display_height s) (bm_height bmp)\<rparr>"
    let ?r = "if gallery_group s = None then True else gallery_group_in_root s"
    have "s' = s\<lparr>gallery_image_buffer := gallery_image_buffer s, gallery_group := Some [?tg],
                 gallery_group_in_root := ?r, effects := effects s @ [Refresh]\<rparr>"
      using assms False f ld Some tg0
      by (cases "gallery_group s = None")
         (auto simp add: display_current_image_def Let_def emit_def)
    moreover from this have "buffer_fits s \<longrightarrow> buffer_fits s'"
      by (simp add: buffer_fits_def split: option.splits)
    ultimately show ?thesis by blast
  qed
qed

text \<open>
  It returns when the buffer covers the frame, the index is not negative, and the
  current file, if there is one, fails to load or loads to a bitmap with width and height.
\<close>

lemma display_current_image_returns:
  assumes "display_ready s"
    and "\<And>f. py_index (gallery_images s) (gallery_index s) = Inr f \<Longrightarrow> loads_nonempty e s f"
  shows "\<exists>s'. display_current_image e s = Inr s'"
proof (cases "gallery_images s = [] \<or> gallery_index s \<ge> int (length (gallery_images s))")
  case True
  then show ?thesis by (simp add: display_current_image_def)
next
  case False
  from assms(1) have fits: "buffer_fits s" and idx: "0 \<le> gallery_index s"
    by (simp_all add: display_ready_def)
  obtain f where f: "py_index (gallery_images s) (gallery_index s) = Inr f"
    using idx False by (simp add: py_index_def)
  obtain bo po where ld: "load_image_file e s f = (bo, po)" by (cases "load_image_file e s f")
  show ?thesis
  proof (cases bo)
    case None
    from fallback_ok[OF fits, of e f] obtain buf where
      "show_image_info_fallback e f s
         = Inr (emit [Blit buf, Refresh, DisplayMessage (info_text_of e s f) 0xFFFFFF]
                  (s\<lparr>gallery_image_buffer := Some buf\<rparr>))"
      by (elim exE conjE)
    then show ?thesis
      using False f ld None by (simp add: display_current_image_def)
  next
    case (Some bmp)
    from assms(2)[OF f] ld Some have "0 < bm_width bmp" "0 < bm_height bmp"
      by (simp_all add: loads_nonempty_def)
    then show ?thesis
      using False f ld Some by (simp add: display_current_image_def make_tilegrid_def Let_def)
  qed
qed

lemma current_file_listed:
  assumes "py_index xs i = Inr f"
  shows "f \<in> set xs"
  using assms by (auto simp: py_index_def split: if_splits)

lemma display_current_image_returns_all:
  assumes "display_ready s" and "gallery_loads e s"
  shows "\<exists>s'. display_current_image e s = Inr s'"
proof (rule display_current_image_returns[OF assms(1)])
  fix f assume "py_index (gallery_images s) (gallery_index s) = Inr f"
  then have "f \<in> set (gallery_images s)" by (rule current_file_listed)
  with assms(2) show "loads_nonempty e s f"
    by (simp add: gallery_loads_def list_all_iff)
qed

lemma wrapped_index:
  assumes "0 < n" and "0 \<le> i" and "i < n" and "d = 1 \<or> d = - 1"
  shows "(if i + d < 0 then n - 1 else if i + d \<ge> n then 0 else i + d) = (i + d) mod (n::int)"
proof (cases "i + d < 0")
  case True
  then have "i + d = - 1" using assms(2,4) by auto
  then show ?thesis using assms(1) by (simp add: zmod_minus1)
next
  case False
  show ?thesis
  proof (cases "i + d \<ge> n")
    case True
    then have "i + d = n" using assms(3,4) by auto
    then show ?thesis using False by simp
  next
    case ge: False
    then show ?thesis using False by simp
  qed
qed

lemma gallery_navigate_unfold:
  assumes "gallery_images s \<noteq> []"
    and "0 \<le> gallery_index s" and "gallery_index s < int (length (gallery_images s))"
    and "d = 1 \<or> d = - 1"
  shows "gallery_navigate e d s
           = display_current_image e
               (s\<lparr>gallery_index := (gallery_index s + d) mod int (length (gallery_images s))\<rparr>)"
proof -
  have "0 < int (length (gallery_images s))" using assms(1) by simp
  from wrapped_index[OF this assms(2,3,4)] show ?thesis
    using assms(1) by (simp add: gallery_navigate_def Let_def)
qed

lemma gallery_navigate_index:
  assumes "gallery_images s \<noteq> []"
    and "0 \<le> gallery_index s" and "gallery_index s < int (length (gallery_images s))"
    and "d = 1 \<or> d = - 1"
    and "gallery_navigate e d s = Inr s'"
  shows "gallery_index s' = (gallery_index s + d) mod int (length (gallery_images s))
       \<and> gallery_images s' = gallery_images s
       \<and> jpeg_decoder s' = jpeg_decoder s \<and> gallery_zoom_level s' = gallery_zoom_level s
       \<and> (buffer_fits s \<longrightarrow> buffer_fits s')"
proof -
  let ?s1 = "s\<lparr>gallery_index := (gallery_index s + d) mod int (length (gallery_images s))\<rparr>"
  have "display_current_image e ?s1 = Inr s'"
    using gallery_navigate_unfold[OF assms(1-4), of e] assms(5) by simp
  from display_current_image_frame[OF this] obtain b g r l where
    s': "s' = ?s1\<lparr>gallery_image_buffer := b, gallery_group := g,
                    gallery_group_in_root := r, effects := l\<rparr>"
    and fit: "buffer_fits ?s1 \<longrightarrow> buffer_fits s'"
    by (elim exE conjE)
  from fit have "buffer_fits s \<longrightarrow> buffer_fits s'" by simp
  then show ?thesis by (simp add: s')
qed

lemma gallery_navigate_returns:
  assumes "gallery_images s \<noteq> []"
    and "0 \<le> gallery_index s" and "gallery_index s < int (length (gallery_images s))"
    and "d = 1 \<or> d = - 1"
    and "buffer_fits s" and "gallery_loads e s"
  shows "\<exists>s'. gallery_navigate e d s = Inr s'"
proof -
  let ?s1 = "s\<lparr>gallery_index := (gallery_index s + d) mod int (length (gallery_images s))\<rparr>"
  have npos: "0 < int (length (gallery_images s))" using assms(1) by simp
  have ready: "display_ready ?s1"
    using assms(5) npos by (simp add: display_ready_def)
  have "gallery_loads e ?s1 = gallery_loads e s"
    by (rule gallery_loads_depends) simp_all
  with assms(6) have "gallery_loads e ?s1" by simp
  from display_current_image_returns_all[OF ready this] show ?thesis
    using gallery_navigate_unfold[OF assms(1-4), of e] by simp
qed

lemma navigate_each_index:
  assumes "gallery_images s \<noteq> []"
    and "0 \<le> gallery_index s" and "gallery_index s < int (length (gallery_images s))"
    and "navigate_each es 1 s = Inr s'"
  shows "gallery_index s' = (gallery_index s + int (length es)) mod int (length (gallery_images s))"
  using assms
proof (induction es arbitrary: s)
  case Nil
  then show ?case by simp
next
  case (Cons e es)
  let ?n = "int (length (gallery_images s))"
  from Cons.prems(4) obtain s1 where
    s1: "gallery_navigate e 1 s = Inr s1" and rest: "navigate_each es 1 s1 = Inr s'"
    by (auto split: sum.splits)
  have d: "(1::int) = 1 \<or> (1::int) = - 1" by simp
  from gallery_navigate_index[OF Cons.prems(1-3) d s1] have
    k: "gallery_index s1 = (gallery_index s + 1) mod ?n" "gallery_images s1 = gallery_images s"
    by simp_all
  have npos: "0 < ?n" using Cons.prems(1) by simp
  have p: "gallery_images s1 \<noteq> []" "0 \<le> gallery_index s1"
          "gallery_index s1 < int (length (gallery_images s1))"
    using k Cons.prems(1) npos by simp_all
  from Cons.IH[OF p rest] have
    "gallery_index s' = ((gallery_index s + 1) mod ?n + int (length es)) mod ?n"
    using k by simp
  also have "\<dots> = ((gallery_index s + 1) + int (length es)) mod ?n"
    by (rule mod_add_left_eq)
  also have "\<dots> = (gallery_index s + int (length (e # es))) mod ?n"
    by (simp add: algebra_simps)
  finally show ?case .
qed

lemma navigate_each_returns:
  assumes "gallery_images s \<noteq> []"
    and "0 \<le> gallery_index s" and "gallery_index s < int (length (gallery_images s))"
    and "buffer_fits s" and "list_all (\<lambda>w. gallery_loads w s) es"
  shows "\<exists>s'. navigate_each es 1 s = Inr s'"
  using assms
proof (induction es arbitrary: s)
  case Nil
  then show ?case by simp
next
  case (Cons e es)
  let ?n = "int (length (gallery_images s))"
  have d: "(1::int) = 1 \<or> (1::int) = - 1" by simp
  from Cons.prems(5) have here: "gallery_loads e s" and later: "list_all (\<lambda>w. gallery_loads w s) es"
    by simp_all
  from gallery_navigate_returns[OF Cons.prems(1-3) d Cons.prems(4) here] obtain s1 where
    s1: "gallery_navigate e 1 s = Inr s1" by (elim exE)
  from gallery_navigate_index[OF Cons.prems(1-3) d s1] have
    k: "gallery_index s1 = (gallery_index s + 1) mod ?n" "gallery_images s1 = gallery_images s"
       "jpeg_decoder s1 = jpeg_decoder s" "gallery_zoom_level s1 = gallery_zoom_level s"
       "buffer_fits s1"
    using Cons.prems(4) by simp_all
  have npos: "0 < ?n" using Cons.prems(1) by simp
  have p: "gallery_images s1 \<noteq> []" "0 \<le> gallery_index s1"
          "gallery_index s1 < int (length (gallery_images s1))"
    using k Cons.prems(1) npos by simp_all
  have "(\<lambda>w. gallery_loads w s1) = (\<lambda>w. gallery_loads w s)"
    by (rule ext) (rule gallery_loads_depends[OF k(3,4,2)])
  with later have l1: "list_all (\<lambda>w. gallery_loads w s1) es" by simp
  from Cons.IH[OF p k(5) l1] show ?case
    using s1 by simp
qed

lemma vga_loads_nonempty:
  assumes "jpeg_decoder s = Some vga_decoder"
    and "gallery_zoom_level s = 1 \<or> gallery_zoom_level s = 2 \<or> gallery_zoom_level s = 3"
  shows "loads_nonempty (world fsys r k) s f"
  using assms
  by (auto simp add: loads_nonempty_def load_image_file_def load_jpeg_file_def load_gif_file_def
        get_current_scale_factor_def new_bitmap_def Let_def vga_decoder_def world_def py_index_def)

lemma vga_gallery_loads:
  assumes "jpeg_decoder s = Some vga_decoder"
    and "gallery_zoom_level s = 1 \<or> gallery_zoom_level s = 2 \<or> gallery_zoom_level s = 3"
  shows "gallery_loads (world fsys r k) s"
  using vga_loads_nonempty[OF assms] by (simp add: gallery_loads_def list_all_iff)

lemma browsing_facts:
  "gallery_images browsing = [''a.jpg'', ''b.jpg'', ''c.jpg'']" "gallery_index browsing = 1"
  "gallery_zoom_level browsing = 1" "buffer_fits browsing" "display_ready browsing"
  "jpeg_decoder browsing = Some vga_decoder"
  by (simp_all add: browsing_def fresh_state_def buffer_fits_def display_ready_def blank_bitmap_def)

lemma browsing_loads:
  "gallery_loads (world fsys r k) browsing"
  "gallery_loads (world fsys r k) (browsing\<lparr>gallery_zoom_level := 1\<rparr>)"
  "gallery_loads (world fsys r k) (browsing\<lparr>gallery_zoom_level := 2\<rparr>)"
  "gallery_loads (world fsys r k) (browsing\<lparr>gallery_zoom_level := 3\<rparr>)"
  by (rule vga_gallery_loads, simp add: browsing_facts, simp add: browsing_facts)+

lemma gallery_zoom_in_frame:
  assumes "gallery_zoom_in e s = Inr s'"
  shows "gallery_zoom_level s'
           = (if 1 < gallery_zoom_level s then gallery_zoom_level s - 1 else gallery_zoom_level s)
       \<and> (gallery_zoom_level s \<le> 1 \<longrightarrow> s' = s)
       \<and> gallery_images s' = gallery_images s \<and> gallery_index s' = gallery_index s
       \<and> jpeg_decoder s' = jpeg_decoder s
       \<and> (buffer_fits s \<longrightarrow> buffer_fits s')"
proof (cases "1 < gallery_zoom_level s")
  case True
  let ?s1 = "s\<lparr>gallery_zoom_level := gallery_zoom_level s - 1\<rparr>"
  from True assms have "display_current_image e ?s1 = Inr s'"
    by (simp add: gallery_zoom_in_def)
  from display_current_image_frame[OF this] obtain b g r l where
    s': "s' = ?s1\<lparr>gallery_image_buffer := b, gallery_group := g,
                    gallery_group_in_root := r, effects := l\<rparr>"
    and fit: "buffer_fits ?s1 \<longrightarrow> buffer_fits s'"
    by (elim exE conjE)
  from fit have "buffer_fits s \<longrightarrow> buffer_fits s'" by simp
  then show ?thesis using True by (simp add: s')
next
  case False
  then show ?thesis using assms by (simp add: gallery_zoom_in_def)
qed

lemma gallery_zoom_out_frame:
  assumes "gallery_zoom_out e s = Inr s'"
  shows "gallery_zoom_level s'
           = (if gallery_zoom_level s < 3 then gallery_zoom_level s + 1 else gallery_zoom_level s)
       \<and> (3 \<le> gallery_zoom_level s \<longrightarrow> s' = s)
       \<and> gallery_images s' = gallery_images s \<and> gallery_index s' = gallery_index s
       \<and> jpeg_decoder s' = jpeg_decoder s
       \<and> (buffer_fits s \<longrightarrow> buffer_fits s')"
proof (cases "gallery_zoom_level s < 3")
  case True
  let ?s1 = "s\<lparr>gallery_zoom_level := gallery_zoom_level s + 1\<rparr>"
  from True assms have "display_current_image e ?s1 = Inr s'"
    by (simp add: gallery_zoom_out_def)
  from display_current_image_frame[OF this] obtain b g r l where
    s': "s' = ?s1\<lparr>gallery_image_buffer := b, gallery_group := g,
                    gallery_group_in_root := r, effects := l\<rparr>"
    and fit: "buffer_fits ?s1 \<longrightarrow> buffer_fits s'"
    by (elim exE conjE)
  from fit have "buffer_fits s \<longrightarrow> buffer_fits s'" by simp
  then show ?thesis using True by (simp add: s')
next
  case False
  then show ?thesis using assms by (simp add: gallery_zoom_out_def)
qed

lemma gallery_zoom_in_returns:
  assumes "display_ready s"
    and "1 < gallery_zoom_level s \<Longrightarrow> gallery_loads e (s\<lparr>gallery_zoom_level := gallery_zoom_level s - 1\<rparr>)"
  shows "\<exists>s'. gallery_zoom_in e s = Inr s'"
proof (cases "1 < gallery_zoom_level s")
  case True
  let ?s1 = "s\<lparr>gallery_zoom_level := gallery_zoom_level s - 1\<rparr>"
  have "display_ready ?s1" using assms(1) by (simp add: display_ready_def)
  from display_current_image_returns_all[OF this assms(2)[OF True]] show ?thesis
    using True by (simp add: gallery_zoom_in_def)
next
  case False
  then show ?thesis by (simp add: gallery_zoom_in_def)
qed

lemma gallery_zoom_out_returns:
  assumes "display_ready s"
    and "gallery_zoom_level s < 3 \<Longrightarrow> gallery_loads e (s\<lparr>gallery_zoom_level := gallery_zoom_level s + 1\<rparr>)"
  shows "\<exists>s'. gallery_zoom_out e s = Inr s'"
proof (cases "gallery_zoom_level s < 3")
  case True
  let ?s1 = "s\<lparr>gallery_zoom_level := gallery_zoom_level s + 1\<rparr>"
  have "display_ready ?s1" using assms(1) by (simp add: display_ready_def)
  from display_current_image_returns_all[OF this assms(2)[OF True]] show ?thesis
    using True by (simp add: gallery_zoom_out_def)
next
  case False
  then show ?thesis by (simp add: gallery_zoom_out_def)
qed

lemma gallery_loads_at:
  assumes "jpeg_decoder s' = jpeg_decoder s" and "gallery_images s' = gallery_images s"
  shows "gallery_loads e (s'\<lparr>gallery_zoom_level := z\<rparr>) = gallery_loads e (s\<lparr>gallery_zoom_level := z\<rparr>)"
  by (rule gallery_loads_depends) (simp_all add: assms)

lemma zoom_pair_returns:
  assumes "display_ready s"
    and "1 \<le> gallery_zoom_level s" and "gallery_zoom_level s \<le> 3"
    and "\<And>z. z = 1 \<or> z = 2 \<or> z = 3 \<Longrightarrow> gallery_loads e (s\<lparr>gallery_zoom_level := z\<rparr>)"
    and "\<And>z. z = 1 \<or> z = 2 \<or> z = 3 \<Longrightarrow> gallery_loads e' (s\<lparr>gallery_zoom_level := z\<rparr>)"
  shows "(\<exists>s1 s2. gallery_zoom_in e s = Inr s1 \<and> gallery_zoom_out e' s1 = Inr s2)
       \<and> (\<exists>s1 s2. gallery_zoom_out e s = Inr s1 \<and> gallery_zoom_in e' s1 = Inr s2)"
proof (rule conjI)
  have "\<exists>a1. gallery_zoom_in e s = Inr a1"
  proof (rule gallery_zoom_in_returns[OF assms(1)])
    assume "1 < gallery_zoom_level s"
    with assms(3) show "gallery_loads e (s\<lparr>gallery_zoom_level := gallery_zoom_level s - 1\<rparr>)"
      by (intro assms(4)) auto
  qed
  then obtain a1 where a1: "gallery_zoom_in e s = Inr a1" by (elim exE)
  from gallery_zoom_in_frame[OF a1] assms(1) have
    k: "gallery_images a1 = gallery_images s" "gallery_index a1 = gallery_index s"
       "jpeg_decoder a1 = jpeg_decoder s" "buffer_fits a1"
       "gallery_zoom_level a1
           = (if 1 < gallery_zoom_level s then gallery_zoom_level s - 1 else gallery_zoom_level s)"
    by (simp_all add: display_ready_def)
  have r1: "display_ready a1" using k assms(1) by (simp add: display_ready_def)
  have "\<exists>a2. gallery_zoom_out e' a1 = Inr a2"
  proof (rule gallery_zoom_out_returns[OF r1])
    assume "gallery_zoom_level a1 < 3"
    have "gallery_loads e' (s\<lparr>gallery_zoom_level := gallery_zoom_level a1 + 1\<rparr>)"
      using k(5) assms(2,3) by (intro assms(5)) auto
    then show "gallery_loads e' (a1\<lparr>gallery_zoom_level := gallery_zoom_level a1 + 1\<rparr>)"
      by (simp add: gallery_loads_at[OF k(3) k(1)])
  qed
  with a1 show "\<exists>s1 s2. gallery_zoom_in e s = Inr s1 \<and> gallery_zoom_out e' s1 = Inr s2"
    by (elim exE) (intro exI conjI, assumption+)
next
  have "\<exists>b1. gallery_zoom_out e s = Inr b1"
  proof (rule gallery_zoom_out_returns[OF assms(1)])
    assume "gallery_zoom_level s < 3"
    with assms(2) show "gallery_loads e (s\<lparr>gallery_zoom_level := gallery_zoom_level s + 1\<rparr>)"
      by (intro assms(4)) auto
  qed
  then obtain b1 where b1: "gallery_zoom_out e s = Inr b1" by (elim exE)
  from gallery_zoom_out_frame[OF b1] assms(1) have
    k: "gallery_images b1 = gallery_images s" "gallery_index b1 = gallery_index s"
       "jpeg_decoder b1 = jpeg_decoder s" "buffer_fits b1"
       "gallery_zoom_level b1
           = (if gallery_zoom_level s < 3 then gallery_zoom_level s + 1 else gallery_zoom_level s)"
    by (simp_all add: display_ready_def)
  have r1: "display_ready b1" using k assms(1) by (simp add: display_ready_def)
  have "\<exists>b2. gallery_zoom_in e' b1 = Inr b2"
  proof (rule gallery_zoom_in_returns[OF r1])
    assume "1 < gallery_zoom_level b1"
    have "gallery_loads e' (s\<lparr>gallery_zoom_level := gallery_zoom_level b1 - 1\<rparr>)"
      using k(5) assms(2,3) by (intro assms(5)) auto
    then show "gallery_loads e' (b1\<lparr>gallery_zoom_level := gallery_zoom_level b1 - 1\<rparr>)"
      by (simp add: gallery_loads_at[OF k(3) k(1)])
  qed
  with b1 show "\<exists>s1 s2. gallery_zoom_out e s = Inr s1 \<and> gallery_zoom_in e' s1 = Inr s2"
    by (elim exE) (intro exI conjI, assumption+)
qed

section \<open>Navigating and zooming\<close>

text \<open>
  C5. In a gallery with at least one file and an index in range: whenever
  \<^verbatim>\<open>gallery_navigate(+1)\<close>, called as many times as there are files, returns, the
  index is back at its starting value, whatever the card and the decoder do in between;
  and whenever one call with direction +1 or -1 returns, the index is
  (index + direction) mod len(files). The calls do return when the gallery buffer covers
  the camera frame and every file of the gallery fails to load or loads to a bitmap with
  width and height; for a bitmap without, \<^verbatim>\<open>displayio.TileGrid\<close> raises, and no
  caller catches it.
\<close>

theorem gallery_navigate_wraps_around:
  assumes "gallery_images s \<noteq> []"
    and "0 \<le> gallery_index s" and "gallery_index s < int (length (gallery_images s))"
    and "length es = length (gallery_images s)"
    and "d = 1 \<or> d = - 1"
  shows "(\<forall>s'. navigate_each es 1 s = Inr s' \<longrightarrow> gallery_index s' = gallery_index s)
       \<and> (\<forall>s'. gallery_navigate e d s = Inr s' \<longrightarrow>
              gallery_index s' = (gallery_index s + d) mod int (length (gallery_images s)))
       \<and> (buffer_fits s \<and> list_all (\<lambda>w. gallery_loads w s) es \<longrightarrow>
              (\<exists>s'. navigate_each es 1 s = Inr s'))
       \<and> (buffer_fits s \<and> gallery_loads e s \<longrightarrow> (\<exists>s'. gallery_navigate e d s = Inr s'))"
proof (intro conjI allI impI)
  fix s' assume "navigate_each es 1 s = Inr s'"
  from navigate_each_index[OF assms(1-3) this]
  show "gallery_index s' = gallery_index s"
    using assms(2,3,4) by simp
next
  fix s' assume "gallery_navigate e d s = Inr s'"
  from gallery_navigate_index[OF assms(1-3) assms(5) this]
  show "gallery_index s' = (gallery_index s + d) mod int (length (gallery_images s))"
    by simp
next
  assume "buffer_fits s \<and> list_all (\<lambda>w. gallery_loads w s) es"
  then show "\<exists>s'. navigate_each es 1 s = Inr s'"
    using navigate_each_returns[OF assms(1-3)] by simp
next
  assume "buffer_fits s \<and> gallery_loads e s"
  then show "\<exists>s'. gallery_navigate e d s = Inr s'"
    using gallery_navigate_returns[OF assms(1-3) assms(5)] by simp
qed

text \<open>
  Three files that the decoder turns into 320 by 240 bitmaps, starting at the second:
  three steps forward, and one step back.
\<close>

theorem gallery_navigate_three_files:
  "gallery_images browsing \<noteq> [] \<and> 0 \<le> gallery_index browsing
   \<and> gallery_index browsing < int (length (gallery_images browsing))
   \<and> gallery_index browsing = 1 \<and> buffer_fits browsing
   \<and> list_all (\<lambda>w. gallery_loads w browsing)
        [world (card_with []) (Inr PyNone) 0, world no_card (Inr PyNone) 0,
         world (card_with []) (Inr PyNone) 0]
   \<and> (\<exists>s'. navigate_each [world (card_with []) (Inr PyNone) 0, world no_card (Inr PyNone) 0,
                            world (card_with []) (Inr PyNone) 0] 1 browsing = Inr s'
          \<and> gallery_index s' = 1)
   \<and> (\<exists>s'. gallery_navigate (world no_card (Inr PyNone) 0) (- 1) browsing = Inr s'
          \<and> gallery_index s' = 0)"
proof -
  let ?es = "[world (card_with []) (Inr PyNone) 0, world no_card (Inr PyNone) 0,
              world (card_with []) (Inr PyNone) 0]"
  let ?w = "world no_card (Inr PyNone) 0"
  have h: "gallery_images browsing \<noteq> []" "0 \<le> gallery_index browsing"
     "gallery_index browsing < int (length (gallery_images browsing))"
     "length ?es = length (gallery_images browsing)" "(- 1::int) = 1 \<or> (- 1::int) = - 1"
    by (simp_all add: browsing_facts)
  have l: "list_all (\<lambda>w. gallery_loads w browsing) ?es"
    by (simp add: browsing_loads)
  have lw: "gallery_loads ?w browsing" by (rule browsing_loads)
  note t = gallery_navigate_wraps_around[OF h, of ?w]
  note t1 = t[THEN conjunct1, rule_format]
  note t2 = t[THEN conjunct2, THEN conjunct1, rule_format]
  note t3 = t[THEN conjunct2, THEN conjunct2, THEN conjunct1, rule_format]
  note t4 = t[THEN conjunct2, THEN conjunct2, THEN conjunct2, rule_format]
  have "\<exists>a. navigate_each ?es 1 browsing = Inr a"
    by (rule t3) (intro conjI browsing_facts(4) l)
  then obtain a where a: "navigate_each ?es 1 browsing = Inr a" by (elim exE)
  have "\<exists>b. gallery_navigate ?w (- 1) browsing = Inr b"
    by (rule t4) (intro conjI browsing_facts(4) lw)
  then obtain b where b: "gallery_navigate ?w (- 1) browsing = Inr b" by (elim exE)
  have ia: "gallery_index a = 1" using t1[OF a] by (simp only: browsing_facts(2))
  have "gallery_index b = (gallery_index browsing + - 1) mod int (length (gallery_images browsing))"
    by (rule t2[OF b])
  then have ib: "gallery_index b = 0" by (simp add: browsing_facts(1,2))
  have A: "\<exists>s'. navigate_each ?es 1 browsing = Inr s' \<and> gallery_index s' = 1"
    using a ia by (intro exI conjI)
  have B: "\<exists>s'. gallery_navigate ?w (- 1) browsing = Inr s' \<and> gallery_index s' = 0"
    using b ib by (intro exI conjI)
  show ?thesis
    using h(1,2,3) browsing_facts(2) browsing_facts(4) l A B by (intro conjI)
qed

text \<open>
  C6. With the zoom level in 1..3: whenever \<^verbatim>\<open>gallery_zoom_in\<close> or
  \<^verbatim>\<open>gallery_zoom_out\<close> returns, the level is still in 1..3; zooming in and then out
  restores the level unless it was 1, where the pair ends at 2; zooming out and then in
  restores the level unless it was 3, where the pair ends at 2. At level 1 zooming in
  returns the state unchanged, and so does zooming out at level 3: in the source zooming
  in lowers the level and zooming out raises it. Both pairs do return when the gallery
  buffer covers the camera frame, the index is not negative, and every file of the
  gallery, at each of the three levels, fails to load or loads to a bitmap with width
  and height.
\<close>

theorem gallery_zoom_in_out_inverse:
  assumes "1 \<le> gallery_zoom_level s" and "gallery_zoom_level s \<le> 3"
  shows "(\<forall>s1. gallery_zoom_in e s = Inr s1 \<longrightarrow>
            1 \<le> gallery_zoom_level s1 \<and> gallery_zoom_level s1 \<le> 3
            \<and> (\<forall>s2. gallery_zoom_out e' s1 = Inr s2 \<longrightarrow>
                  1 \<le> gallery_zoom_level s2 \<and> gallery_zoom_level s2 \<le> 3
                  \<and> (gallery_zoom_level s \<noteq> 1 \<longrightarrow> gallery_zoom_level s2 = gallery_zoom_level s)
                  \<and> (gallery_zoom_level s = 1 \<longrightarrow> gallery_zoom_level s2 = 2)))
       \<and> (\<forall>s1. gallery_zoom_out e s = Inr s1 \<longrightarrow>
            1 \<le> gallery_zoom_level s1 \<and> gallery_zoom_level s1 \<le> 3
            \<and> (\<forall>s2. gallery_zoom_in e' s1 = Inr s2 \<longrightarrow>
                  1 \<le> gallery_zoom_level s2 \<and> gallery_zoom_level s2 \<le> 3
                  \<and> (gallery_zoom_level s \<noteq> 3 \<longrightarrow> gallery_zoom_level s2 = gallery_zoom_level s)
                  \<and> (gallery_zoom_level s = 3 \<longrightarrow> gallery_zoom_level s2 = 2)))
       \<and> (gallery_zoom_level s = 1 \<longrightarrow> gallery_zoom_in e s = Inr s)
       \<and> (gallery_zoom_level s = 3 \<longrightarrow> gallery_zoom_out e s = Inr s)
       \<and> (display_ready s
            \<and> list_all (\<lambda>z. gallery_loads e (s\<lparr>gallery_zoom_level := z\<rparr>)
                           \<and> gallery_loads e' (s\<lparr>gallery_zoom_level := z\<rparr>)) [1, 2, 3] \<longrightarrow>
            (\<exists>s1 s2. gallery_zoom_in e s = Inr s1 \<and> gallery_zoom_out e' s1 = Inr s2)
            \<and> (\<exists>s1 s2. gallery_zoom_out e s = Inr s1 \<and> gallery_zoom_in e' s1 = Inr s2))"
proof (intro conjI)
  show "\<forall>s1. gallery_zoom_in e s = Inr s1 \<longrightarrow>
            1 \<le> gallery_zoom_level s1 \<and> gallery_zoom_level s1 \<le> 3
            \<and> (\<forall>s2. gallery_zoom_out e' s1 = Inr s2 \<longrightarrow>
                  1 \<le> gallery_zoom_level s2 \<and> gallery_zoom_level s2 \<le> 3
                  \<and> (gallery_zoom_level s \<noteq> 1 \<longrightarrow> gallery_zoom_level s2 = gallery_zoom_level s)
                  \<and> (gallery_zoom_level s = 1 \<longrightarrow> gallery_zoom_level s2 = 2))"
  proof (intro allI impI)
    fix s1 assume a1: "gallery_zoom_in e s = Inr s1"
    from gallery_zoom_in_frame[OF a1] have
      z1: "gallery_zoom_level s1
             = (if 1 < gallery_zoom_level s then gallery_zoom_level s - 1 else gallery_zoom_level s)"
      by simp
    have "\<forall>s2. gallery_zoom_out e' s1 = Inr s2 \<longrightarrow>
                  1 \<le> gallery_zoom_level s2 \<and> gallery_zoom_level s2 \<le> 3
                  \<and> (gallery_zoom_level s \<noteq> 1 \<longrightarrow> gallery_zoom_level s2 = gallery_zoom_level s)
                  \<and> (gallery_zoom_level s = 1 \<longrightarrow> gallery_zoom_level s2 = 2)"
    proof (intro allI impI)
      fix s2 assume a2: "gallery_zoom_out e' s1 = Inr s2"
      from gallery_zoom_out_frame[OF a2] have
        "gallery_zoom_level s2
           = (if gallery_zoom_level s1 < 3 then gallery_zoom_level s1 + 1 else gallery_zoom_level s1)"
        by simp
      with z1 assms show "1 \<le> gallery_zoom_level s2 \<and> gallery_zoom_level s2 \<le> 3
                  \<and> (gallery_zoom_level s \<noteq> 1 \<longrightarrow> gallery_zoom_level s2 = gallery_zoom_level s)
                  \<and> (gallery_zoom_level s = 1 \<longrightarrow> gallery_zoom_level s2 = 2)"
        by auto
    qed
    with z1 assms show "1 \<le> gallery_zoom_level s1 \<and> gallery_zoom_level s1 \<le> 3
            \<and> (\<forall>s2. gallery_zoom_out e' s1 = Inr s2 \<longrightarrow>
                  1 \<le> gallery_zoom_level s2 \<and> gallery_zoom_level s2 \<le> 3
                  \<and> (gallery_zoom_level s \<noteq> 1 \<longrightarrow> gallery_zoom_level s2 = gallery_zoom_level s)
                  \<and> (gallery_zoom_level s = 1 \<longrightarrow> gallery_zoom_level s2 = 2))"
      by simp
  qed
next
  show "\<forall>s1. gallery_zoom_out e s = Inr s1 \<longrightarrow>
            1 \<le> gallery_zoom_level s1 \<and> gallery_zoom_level s1 \<le> 3
            \<and> (\<forall>s2. gallery_zoom_in e' s1 = Inr s2 \<longrightarrow>
                  1 \<le> gallery_zoom_level s2 \<and> gallery_zoom_level s2 \<le> 3
                  \<and> (gallery_zoom_level s \<noteq> 3 \<longrightarrow> gallery_zoom_level s2 = gallery_zoom_level s)
                  \<and> (gallery_zoom_level s = 3 \<longrightarrow> gallery_zoom_level s2 = 2))"
  proof (intro allI impI)
    fix s1 assume b1: "gallery_zoom_out e s = Inr s1"
    from gallery_zoom_out_frame[OF b1] have
      z1: "gallery_zoom_level s1
             = (if gallery_zoom_level s < 3 then gallery_zoom_level s + 1 else gallery_zoom_level s)"
      by simp
    have "\<forall>s2. gallery_zoom_in e' s1 = Inr s2 \<longrightarrow>
                  1 \<le> gallery_zoom_level s2 \<and> gallery_zoom_level s2 \<le> 3
                  \<and> (gallery_zoom_level s \<noteq> 3 \<longrightarrow> gallery_zoom_level s2 = gallery_zoom_level s)
                  \<and> (gallery_zoom_level s = 3 \<longrightarrow> gallery_zoom_level s2 = 2)"
    proof (intro allI impI)
      fix s2 assume b2: "gallery_zoom_in e' s1 = Inr s2"
      from gallery_zoom_in_frame[OF b2] have
        "gallery_zoom_level s2
           = (if 1 < gallery_zoom_level s1 then gallery_zoom_level s1 - 1 else gallery_zoom_level s1)"
        by simp
      with z1 assms show "1 \<le> gallery_zoom_level s2 \<and> gallery_zoom_level s2 \<le> 3
                  \<and> (gallery_zoom_level s \<noteq> 3 \<longrightarrow> gallery_zoom_level s2 = gallery_zoom_level s)
                  \<and> (gallery_zoom_level s = 3 \<longrightarrow> gallery_zoom_level s2 = 2)"
        by auto
    qed
    with z1 assms show "1 \<le> gallery_zoom_level s1 \<and> gallery_zoom_level s1 \<le> 3
            \<and> (\<forall>s2. gallery_zoom_in e' s1 = Inr s2 \<longrightarrow>
                  1 \<le> gallery_zoom_level s2 \<and> gallery_zoom_level s2 \<le> 3
                  \<and> (gallery_zoom_level s \<noteq> 3 \<longrightarrow> gallery_zoom_level s2 = gallery_zoom_level s)
                  \<and> (gallery_zoom_level s = 3 \<longrightarrow> gallery_zoom_level s2 = 2))"
      by simp
  qed
next
  show "gallery_zoom_level s = 1 \<longrightarrow> gallery_zoom_in e s = Inr s"
    by (simp add: gallery_zoom_in_def)
next
  show "gallery_zoom_level s = 3 \<longrightarrow> gallery_zoom_out e s = Inr s"
    by (simp add: gallery_zoom_out_def)
next
  show "display_ready s
            \<and> list_all (\<lambda>z. gallery_loads e (s\<lparr>gallery_zoom_level := z\<rparr>)
                           \<and> gallery_loads e' (s\<lparr>gallery_zoom_level := z\<rparr>)) [1, 2, 3] \<longrightarrow>
            (\<exists>s1 s2. gallery_zoom_in e s = Inr s1 \<and> gallery_zoom_out e' s1 = Inr s2)
            \<and> (\<exists>s1 s2. gallery_zoom_out e s = Inr s1 \<and> gallery_zoom_in e' s1 = Inr s2)"
  proof (rule impI)
    assume h: "display_ready s
            \<and> list_all (\<lambda>z. gallery_loads e (s\<lparr>gallery_zoom_level := z\<rparr>)
                           \<and> gallery_loads e' (s\<lparr>gallery_zoom_level := z\<rparr>)) [1, 2, 3]"
    then have r: "display_ready s" by simp
    have l: "gallery_loads e (s\<lparr>gallery_zoom_level := z\<rparr>)"
            "gallery_loads e' (s\<lparr>gallery_zoom_level := z\<rparr>)" if "z = 1 \<or> z = 2 \<or> z = 3" for z
      using h that by auto
    show "(\<exists>s1 s2. gallery_zoom_in e s = Inr s1 \<and> gallery_zoom_out e' s1 = Inr s2)
            \<and> (\<exists>s1 s2. gallery_zoom_out e s = Inr s1 \<and> gallery_zoom_in e' s1 = Inr s2)"
      by (rule zoom_pair_returns[OF r assms l])
  qed
qed

text \<open>From level 1: out and back in restores it; in is a no-op, so in and out ends at 2.\<close>

theorem gallery_zoom_from_level_one:
  "gallery_zoom_level browsing = 1 \<and> display_ready browsing
   \<and> list_all (\<lambda>z. gallery_loads (world no_card (Inr PyNone) 0) (browsing\<lparr>gallery_zoom_level := z\<rparr>)
                  \<and> gallery_loads (world (card_with []) (Inr PyNone) 0)
                       (browsing\<lparr>gallery_zoom_level := z\<rparr>))
        [1, 2, 3]
   \<and> (\<exists>s1 s2. gallery_zoom_out (world no_card (Inr PyNone) 0) browsing = Inr s1
         \<and> gallery_zoom_in (world (card_with []) (Inr PyNone) 0) s1 = Inr s2
         \<and> gallery_zoom_level s1 = 2 \<and> gallery_zoom_level s2 = 1)
   \<and> gallery_zoom_in (world no_card (Inr PyNone) 0) browsing = Inr browsing
   \<and> (\<exists>s1 s2. gallery_zoom_in (world no_card (Inr PyNone) 0) browsing = Inr s1
         \<and> gallery_zoom_out (world (card_with []) (Inr PyNone) 0) s1 = Inr s2
         \<and> gallery_zoom_level s1 = 1 \<and> gallery_zoom_level s2 = 2)"
proof -
  let ?e = "world no_card (Inr PyNone) 0"
  let ?e' = "world (card_with []) (Inr PyNone) 0"
  have h: "1 \<le> gallery_zoom_level browsing" "gallery_zoom_level browsing \<le> 3"
    by (simp_all add: browsing_facts)
  have z: "gallery_zoom_level browsing = 1" by (rule browsing_facts)
  have l: "list_all (\<lambda>z. gallery_loads ?e (browsing\<lparr>gallery_zoom_level := z\<rparr>)
                        \<and> gallery_loads ?e' (browsing\<lparr>gallery_zoom_level := z\<rparr>)) [1, 2, 3]"
    by (simp add: browsing_loads)
  note t = gallery_zoom_in_out_inverse[OF h, of ?e ?e']
  note t1 = t[THEN conjunct1, rule_format]
  note t2 = t[THEN conjunct2, THEN conjunct1, rule_format]
  note t3 = t[THEN conjunct2, THEN conjunct2, THEN conjunct1, rule_format]
  note t5 = t[THEN conjunct2, THEN conjunct2, THEN conjunct2, THEN conjunct2, rule_format]
  have same: "gallery_zoom_in ?e browsing = Inr browsing" by (rule t3[OF z])
  have both: "(\<exists>s1 s2. gallery_zoom_in ?e browsing = Inr s1 \<and> gallery_zoom_out ?e' s1 = Inr s2)
            \<and> (\<exists>s1 s2. gallery_zoom_out ?e browsing = Inr s1 \<and> gallery_zoom_in ?e' s1 = Inr s2)"
    by (rule t5) (intro conjI browsing_facts(5) l)
  from both obtain a1 a2 where
    a: "gallery_zoom_in ?e browsing = Inr a1" "gallery_zoom_out ?e' a1 = Inr a2"
    by (elim conjE exE)
  from both obtain b1 b2 where
    b: "gallery_zoom_out ?e browsing = Inr b1" "gallery_zoom_in ?e' b1 = Inr b2"
    by (elim conjE exE)
  from a(1) same have a1: "a1 = browsing" by simp
  from t1[OF a(1)] have
    "\<forall>s2. gallery_zoom_out ?e' a1 = Inr s2 \<longrightarrow>
       1 \<le> gallery_zoom_level s2 \<and> gallery_zoom_level s2 \<le> 3
       \<and> (gallery_zoom_level browsing \<noteq> 1 \<longrightarrow> gallery_zoom_level s2 = gallery_zoom_level browsing)
       \<and> (gallery_zoom_level browsing = 1 \<longrightarrow> gallery_zoom_level s2 = 2)"
    by (elim conjE)
  from this[rule_format, OF a(2)] z have za2: "gallery_zoom_level a2 = 2" by simp
  from t2[OF b(1)] have
    b1r: "1 \<le> gallery_zoom_level b1 \<and> gallery_zoom_level b1 \<le> 3" and
    "\<forall>s2. gallery_zoom_in ?e' b1 = Inr s2 \<longrightarrow>
       1 \<le> gallery_zoom_level s2 \<and> gallery_zoom_level s2 \<le> 3
       \<and> (gallery_zoom_level browsing \<noteq> 3 \<longrightarrow> gallery_zoom_level s2 = gallery_zoom_level browsing)
       \<and> (gallery_zoom_level browsing = 3 \<longrightarrow> gallery_zoom_level s2 = 2)"
    by simp_all
  from this(2)[rule_format, OF b(2)] z have zb2: "gallery_zoom_level b2 = 1" by simp
  have "\<forall>s2. gallery_zoom_out ?e browsing = Inr s2 \<longrightarrow>
       1 \<le> gallery_zoom_level s2 \<and> gallery_zoom_level s2 \<le> 3
       \<and> (gallery_zoom_level browsing \<noteq> 1 \<longrightarrow> gallery_zoom_level s2 = gallery_zoom_level browsing)
       \<and> (gallery_zoom_level browsing = 1 \<longrightarrow> gallery_zoom_level s2 = 2)"
    using gallery_zoom_in_out_inverse[OF h, of ?e ?e, THEN conjunct1, rule_format, OF same]
    by (elim conjE)
  from this[rule_format, OF b(1)] z have zb1: "gallery_zoom_level b1 = 2" by simp
  have A: "\<exists>s1 s2. gallery_zoom_out ?e browsing = Inr s1 \<and> gallery_zoom_in ?e' s1 = Inr s2
         \<and> gallery_zoom_level s1 = 2 \<and> gallery_zoom_level s2 = 1"
    using b zb1 zb2 by (intro exI conjI)
  have B: "\<exists>s1 s2. gallery_zoom_in ?e browsing = Inr s1 \<and> gallery_zoom_out ?e' s1 = Inr s2
         \<and> gallery_zoom_level s1 = 1 \<and> gallery_zoom_level s2 = 2"
  proof (intro exI conjI)
    show "gallery_zoom_in ?e browsing = Inr browsing" by (rule same)
    show "gallery_zoom_out ?e' browsing = Inr a2" using a(2) a1 by simp
    show "gallery_zoom_level browsing = 1" by (rule z)
    show "gallery_zoom_level a2 = 2" by (rule za2)
  qed
  show ?thesis
    using z browsing_facts(5) l A same B by (intro conjI)
qed

section \<open>Decoding at a zoom level\<close>

lemma scale_factor_at:
  assumes "1 \<le> z" and "z \<le> 3"
  shows "py_index [1, 2, 4, 8::nat] z = Inr (2 ^ nat z)"
proof -
  from assms have "z = 1 \<or> z = 2 \<or> z = 3" by auto
  then show ?thesis by (auto simp: py_index_def)
qed

lemma vga_load:
  assumes "z = 1 \<or> z = 2 \<or> z = 3"
  shows "load_jpeg_file (world fsys r k) (fresh_state\<lparr>gallery_zoom_level := z\<rparr>) name
           = Some \<lparr>bm_width = 640 div 2 ^ nat z, bm_height = 480 div 2 ^ nat z,
                   bm_pixels = replicate ((640 div 2 ^ nat z) * (480 div 2 ^ nat z)) 0\<rparr>"
proof -
  let ?s = "fresh_state\<lparr>gallery_zoom_level := z\<rparr>"
  have z: "gallery_zoom_level ?s = z" by simp
  have h: "jpeg_decoder ?s = Some vga_decoder" "jd_open vga_decoder (''/sd/'' @ name) = Inr (640, 480)"
    "1 \<le> gallery_zoom_level ?s" "gallery_zoom_level ?s \<le> 3"
    using assms by (auto simp: fresh_state_def vga_decoder_def)
  show ?thesis
    using assms
    by (auto simp add: load_jpeg_file_def get_current_scale_factor_def new_bitmap_def Let_def
          fresh_state_def vga_decoder_def world_def py_index_def)
qed

text \<open>
  C1, as the code has it. For a file the decoder opens, at a zoom level z in 1..3, with
  the bitmap allocated and the decoding done without an exception, the divisor taken
  from \<^verbatim>\<open>scale_factors\<close> is 2 to the power z, that is 2, 4 and 8 for the levels 1, 2
  and 3, and the bitmap returned is the native width and height divided by it, rounded
  down: half the native size at level 1, an eighth at level 3.
\<close>

theorem load_jpeg_file_scaled_dimensions:
  assumes "jpeg_decoder s = Some dec"
    and "jd_open dec (''/sd/'' @ f) = Inr (w, h)"
    and "1 \<le> gallery_zoom_level s" and "gallery_zoom_level s \<le> 3"
    and "bitmap_alloc e (w div 2 ^ nat (gallery_zoom_level s))
                        (h div 2 ^ nat (gallery_zoom_level s)) = None"
    and "jd_decode dec (''/sd/'' @ f)
           \<lparr>bm_width = w div 2 ^ nat (gallery_zoom_level s),
            bm_height = h div 2 ^ nat (gallery_zoom_level s),
            bm_pixels = replicate
              ((w div 2 ^ nat (gallery_zoom_level s)) * (h div 2 ^ nat (gallery_zoom_level s))) 0\<rparr>
           (gallery_zoom_level s) = Inr px"
  shows "py_index [1, 2, 4, 8::nat] (get_current_scale_factor s)
           = Inr (2 ^ nat (gallery_zoom_level s))
       \<and> load_jpeg_file e s f
           = Some \<lparr>bm_width = w div 2 ^ nat (gallery_zoom_level s),
                   bm_height = h div 2 ^ nat (gallery_zoom_level s),
                   bm_pixels = px\<rparr>"
proof -
  have sf: "py_index [1, 2, 4, 8::nat] (gallery_zoom_level s) = Inr (2 ^ nat (gallery_zoom_level s))"
    using assms(3,4) by (rule scale_factor_at)
  have "load_jpeg_file e s f
           = Some \<lparr>bm_width = w div 2 ^ nat (gallery_zoom_level s),
                   bm_height = h div 2 ^ nat (gallery_zoom_level s),
                   bm_pixels = px\<rparr>"
    using assms(1,2,5,6) sf
    by (simp add: load_jpeg_file_def get_current_scale_factor_def new_bitmap_def Let_def)
  with sf show ?thesis by (simp add: get_current_scale_factor_def)
qed

text \<open>A 640 by 480 file at level 3 is decoded to 80 by 60.\<close>

theorem load_jpeg_file_vga_zoom_three:
  "jpeg_decoder (fresh_state\<lparr>gallery_zoom_level := 3\<rparr>) = Some vga_decoder
   \<and> jd_open vga_decoder (''/sd/'' @ ''IMG.JPG'') = Inr (640, 480)
   \<and> gallery_zoom_level (fresh_state\<lparr>gallery_zoom_level := 3\<rparr>) = 3
   \<and> load_jpeg_file (world (card_with [''IMG.JPG'']) (Inr PyNone) 0)
        (fresh_state\<lparr>gallery_zoom_level := 3\<rparr>) ''IMG.JPG''
       = Some \<lparr>bm_width = 80, bm_height = 60, bm_pixels = replicate 4800 0\<rparr>"
proof -
  let ?s = "fresh_state\<lparr>gallery_zoom_level := 3\<rparr>"
  let ?e = "world (card_with [''IMG.JPG'']) (Inr PyNone) 0"
  have z: "gallery_zoom_level ?s = 3" by simp
  have p: "(2::nat) ^ nat (gallery_zoom_level ?s) = 8" by (simp only: z) simp
  have h1: "jpeg_decoder ?s = Some vga_decoder" by (simp add: fresh_state_def)
  have h2: "jd_open vga_decoder (''/sd/'' @ ''IMG.JPG'') = Inr (640, 480)"
    by (simp add: vga_decoder_def)
  have h3: "1 \<le> gallery_zoom_level ?s" "gallery_zoom_level ?s \<le> 3" by simp_all
  have h5: "bitmap_alloc ?e (640 div 2 ^ nat (gallery_zoom_level ?s))
              (480 div 2 ^ nat (gallery_zoom_level ?s)) = None"
    by (simp add: world_def)
  have h6: "jd_decode vga_decoder (''/sd/'' @ ''IMG.JPG'')
           \<lparr>bm_width = 640 div 2 ^ nat (gallery_zoom_level ?s),
            bm_height = 480 div 2 ^ nat (gallery_zoom_level ?s),
            bm_pixels = replicate
              ((640 div 2 ^ nat (gallery_zoom_level ?s)) * (480 div 2 ^ nat (gallery_zoom_level ?s))) 0\<rparr>
           (gallery_zoom_level ?s) = Inr (replicate 4800 0)"
    by (simp only: p) (simp add: vga_decoder_def)
  from load_jpeg_file_scaled_dimensions[OF h1 h2 h3 h5 h6]
  have "load_jpeg_file ?e ?s ''IMG.JPG''
          = Some \<lparr>bm_width = 640 div 2 ^ nat (gallery_zoom_level ?s),
                  bm_height = 480 div 2 ^ nat (gallery_zoom_level ?s),
                  bm_pixels = replicate 4800 0\<rparr>"
    by blast
  then have "load_jpeg_file ?e ?s ''IMG.JPG''
          = Some \<lparr>bm_width = 80, bm_height = 60, bm_pixels = replicate 4800 0\<rparr>"
    by (simp only: p) simp
  with h1 h2 z show ?thesis by blast
qed

text \<open>
  C1 as stated fails: a 640 by 480 file at level 1 is decoded to 320 by 240, not to its
  native size, and at level 3 to 80 by 60, not to 160 by 120.
\<close>

theorem load_jpeg_file_zoom_one_not_native:
  "jd_open vga_decoder ''/sd/IMG.JPG'' = Inr (640, 480)
   \<and> gallery_zoom_level fresh_state = 1
   \<and> map_option (\<lambda>b. (bm_width b, bm_height b))
        (load_jpeg_file (world (card_with [''IMG.JPG'']) (Inr PyNone) 0) fresh_state ''IMG.JPG'')
       = Some (320, 240)
   \<and> map_option (\<lambda>b. (bm_width b, bm_height b))
        (load_jpeg_file (world (card_with [''IMG.JPG'']) (Inr PyNone) 0) fresh_state ''IMG.JPG'')
       \<noteq> Some (640, 480)
   \<and> map_option (\<lambda>b. (bm_width b, bm_height b))
        (load_jpeg_file (world (card_with [''IMG.JPG'']) (Inr PyNone) 0)
           (fresh_state\<lparr>gallery_zoom_level := 3\<rparr>) ''IMG.JPG'')
       = Some (80, 60)
   \<and> map_option (\<lambda>b. (bm_width b, bm_height b))
        (load_jpeg_file (world (card_with [''IMG.JPG'']) (Inr PyNone) 0)
           (fresh_state\<lparr>gallery_zoom_level := 3\<rparr>) ''IMG.JPG'')
       \<noteq> Some (640 div 4, 480 div 4)"
proof -
  have one: "fresh_state\<lparr>gallery_zoom_level := 1\<rparr> = fresh_state"
    by (simp add: fresh_state_def)
  have a: "load_jpeg_file (world (card_with [''IMG.JPG'']) (Inr PyNone) 0) fresh_state ''IMG.JPG''
             = Some \<lparr>bm_width = 320, bm_height = 240, bm_pixels = replicate (320 * 240) 0\<rparr>"
    using vga_load[of 1 "card_with [''IMG.JPG'']" "Inr PyNone" 0 "''IMG.JPG''"] by (simp add: one)
  have b: "load_jpeg_file (world (card_with [''IMG.JPG'']) (Inr PyNone) 0)
              (fresh_state\<lparr>gallery_zoom_level := 3\<rparr>) ''IMG.JPG''
             = Some \<lparr>bm_width = 80, bm_height = 60, bm_pixels = replicate (80 * 60) 0\<rparr>"
    using vga_load[of 3 "card_with [''IMG.JPG'']" "Inr PyNone" 0 "''IMG.JPG''"] by simp
  show ?thesis
    by (simp only: a b) (simp add: vga_decoder_def fresh_state_def)
qed

section \<open>A device without a decoder\<close>

lemma init_camera_system_result:
  assumes "init_camera_system e0 s0 = Inr s1"
  shows "buffer_fits s1
       \<and> jpeg_decoder s1 = (case jpeg_decoder_new e0 of Inl err \<Rightarrow> None | Inr dec \<Rightarrow> Some dec)"
  using assms
  by (auto simp: init_camera_system_def new_bitmap_def buffer_fits_def
           split: option.splits sum.splits)

lemma no_decoder_text:
  "info_text_of (world (card_with [''a.jpg'', ''b.jpg'', ''c.jpg'']) (Inr PyNone) 0) no_decoder ''b.jpg''
     = ''2/3'' @ [CHR 0x0A] @ ''b.jpg'' @ [CHR 0x0A] @ ''JPEG (load failed)'' @ [CHR 0x0A] @ ''20KB''"
  by code_simp

lemma jpg_name: "endswith (lower ''b.jpg'') ''.jpg''"
  by code_simp

text \<open>
  C10. With no decoder handle, \<^verbatim>\<open>load_jpeg_file\<close> returns \<^verbatim>\<open>None\<close> for every file name
  and \<^verbatim>\<open>load_image_file\<close> returns no bitmap for a name ending in .jpg or .jpeg in any
  case; when such a file is the current one (index in range, gallery buffer covering
  the camera frame), \<^verbatim>\<open>display_current_image\<close> returns normally, having cleared and
  shown the buffer and displayed the information text in white. And that is the state
  startup leaves when the decoder's constructor raises: the handle is \<^verbatim>\<open>None\<close> and
  the buffer covers the frame.
\<close>

theorem missing_decoder_falls_back:
  assumes "jpeg_decoder s = None"
    and "endswith (lower f) ''.jpg'' \<or> endswith (lower f) ''.jpeg''"
    and "0 \<le> gallery_index s" and "gallery_index s < int (length (gallery_images s))"
    and "gallery_images s ! nat (gallery_index s) = f"
    and "buffer_fits s"
  shows "(\<forall>name. load_jpeg_file e s name = None)
       \<and> load_image_file e s f = (None, None)
       \<and> (\<exists>buf. display_current_image e s
                   = Inr (emit [Blit buf, Refresh, DisplayMessage (info_text_of e s f) 0xFFFFFF]
                            (s\<lparr>gallery_image_buffer := Some buf\<rparr>)))
       \<and> (\<forall>e0 s0 s1 err. jpeg_decoder_new e0 = Inl err \<and> init_camera_system e0 s0 = Inr s1
             \<longrightarrow> jpeg_decoder s1 = None \<and> buffer_fits s1)"
proof -
  have nodec: "load_jpeg_file e s name = None" for name
    using assms(1) by (simp add: load_jpeg_file_def)
  have img: "load_image_file e s f = (None, None)"
    using assms(2) nodec by (simp add: load_image_file_def Let_def)
  have cur: "py_index (gallery_images s) (gallery_index s) = Inr f"
    using assms(3,4,5) by (simp add: py_index_def)
  have ne: "gallery_images s \<noteq> []" using assms(3,4) by auto
  have "display_current_image e s = show_image_info_fallback e f s"
    using ne assms(4) cur img by (simp add: display_current_image_def)
  with fallback_ok[OF assms(6), of e f]
  have disp: "\<exists>buf. display_current_image e s
                   = Inr (emit [Blit buf, Refresh, DisplayMessage (info_text_of e s f) 0xFFFFFF]
                            (s\<lparr>gallery_image_buffer := Some buf\<rparr>))"
    by auto
  have init: "\<forall>e0 s0 s1 err. jpeg_decoder_new e0 = Inl err \<and> init_camera_system e0 s0 = Inr s1
             \<longrightarrow> jpeg_decoder s1 = None \<and> buffer_fits s1"
    using init_camera_system_result by fastforce
  from nodec img disp init show ?thesis by blast
qed

text \<open>The second of three JPEG files, 20480 bytes long, without a decoder.\<close>

theorem missing_decoder_second_of_three:
  "jpeg_decoder no_decoder = None
   \<and> endswith (lower ''b.jpg'') ''.jpg''
   \<and> gallery_images no_decoder ! nat (gallery_index no_decoder) = ''b.jpg''
   \<and> buffer_fits no_decoder
   \<and> load_image_file (world (card_with [''a.jpg'', ''b.jpg'', ''c.jpg'']) (Inr PyNone) 0)
        no_decoder ''b.jpg'' = (None, None)
   \<and> (\<exists>buf. display_current_image
                (world (card_with [''a.jpg'', ''b.jpg'', ''c.jpg'']) (Inr PyNone) 0) no_decoder
              = Inr (emit [Blit buf, Refresh,
                           DisplayMessage (''2/3'' @ [CHR 0x0A] @ ''b.jpg'' @ [CHR 0x0A]
                              @ ''JPEG (load failed)'' @ [CHR 0x0A] @ ''20KB'') 0xFFFFFF]
                       (no_decoder\<lparr>gallery_image_buffer := Some buf\<rparr>)))"
proof -
  let ?e = "world (card_with [''a.jpg'', ''b.jpg'', ''c.jpg'']) (Inr PyNone) 0"
  have h1: "jpeg_decoder no_decoder = None" by (simp add: no_decoder_def)
  have h2: "endswith (lower ''b.jpg'') ''.jpg'' \<or> endswith (lower ''b.jpg'') ''.jpeg''"
    using jpg_name by simp
  have h3: "0 \<le> gallery_index no_decoder"
    "gallery_index no_decoder < int (length (gallery_images no_decoder))"
    by (simp_all add: no_decoder_def)
  have h5: "gallery_images no_decoder ! nat (gallery_index no_decoder) = ''b.jpg''"
    by (simp add: no_decoder_def)
  have h6: "buffer_fits no_decoder"
    by (simp add: no_decoder_def fresh_state_def buffer_fits_def blank_bitmap_def)
  from missing_decoder_falls_back[OF h1 h2 h3 h5 h6, of ?e]
  have "load_image_file ?e no_decoder ''b.jpg'' = (None, None)
      \<and> (\<exists>buf. display_current_image ?e no_decoder
                   = Inr (emit [Blit buf, Refresh,
                                DisplayMessage (info_text_of ?e no_decoder ''b.jpg'') 0xFFFFFF]
                            (no_decoder\<lparr>gallery_image_buffer := Some buf\<rparr>)))"
    by blast
  then have "load_image_file ?e no_decoder ''b.jpg'' = (None, None)
      \<and> (\<exists>buf. display_current_image ?e no_decoder
                   = Inr (emit [Blit buf, Refresh,
                                DisplayMessage (''2/3'' @ [CHR 0x0A] @ ''b.jpg'' @ [CHR 0x0A]
                                   @ ''JPEG (load failed)'' @ [CHR 0x0A] @ ''20KB'') 0xFFFFFF]
                            (no_decoder\<lparr>gallery_image_buffer := Some buf\<rparr>)))"
    unfolding no_decoder_text .
  with h1 jpg_name h5 h6 show ?thesis by blast
qed

section \<open>Entering the gallery\<close>

lemma scan_fst_any_state:
  "fst (scan_gallery_images e s) = fst (scan_gallery_images e s')"
  by (simp add: scan_gallery_images_def Let_def split: sum.splits)

lemma scan_snd:
  "snd (scan_gallery_images e s) = s\<lparr>gallery_images := fst (scan_gallery_images e s)\<rparr>"
  by (simp add: scan_gallery_images_def Let_def split: sum.splits)

lemma exit_gallery_mode_ok:
  assumes "buffer_fits s"
  shows "\<exists>buf. exit_gallery_mode s
           = Inr (s\<lparr>gallery_mode := False, gallery_images := [], gallery_index := 0,
                    gallery_image_buffer := Some buf, gallery_group := None,
                    gallery_group_in_root :=
                      (if gallery_group s \<noteq> None then False else gallery_group_in_root s),
                    effects := effects s @
                      [LivePreviewMode, Refresh, Sleep 200, Refresh, Sleep 100, Refresh,
                       DisplayMessage ''Camera Mode'' 0x00FF00, Sleep 500]\<rparr>)
         \<and> camera_width s \<le> bm_width buf \<and> camera_height s \<le> bm_height buf"
proof -
  from assms obtain b where b: "gallery_image_buffer s = Some b"
    and fits: "camera_width s \<le> bm_width b" "camera_height s \<le> bm_height b"
    by (auto simp: buffer_fits_def split: option.splits)
  from clear_buffer_ok[OF fits] obtain b' where
    b': "clear_buffer (camera_width s) (camera_height s) b = Inr b'"
        "bm_width b' = bm_width b" "bm_height b' = bm_height b"
    by blast
  have "exit_gallery_mode s
           = Inr (s\<lparr>gallery_mode := False, gallery_images := [], gallery_index := 0,
                    gallery_image_buffer := Some b', gallery_group := None,
                    gallery_group_in_root :=
                      (if gallery_group s \<noteq> None then False else gallery_group_in_root s),
                    effects := effects s @
                      [LivePreviewMode, Refresh, Sleep 200, Refresh, Sleep 100, Refresh,
                       DisplayMessage ''Camera Mode'' 0x00FF00, Sleep 500]\<rparr>)"
    by (cases "gallery_group s") (simp_all add: exit_gallery_mode_def Let_def b b' emit_def)
  with fits b' show ?thesis by auto
qed

lemma scan_notes_only:
  "fst (scan_gallery_images (world (card_with [''notes.txt'']) (Inr PyNone) 0) fresh_state) = []"
proof -
  have "sort (filter is_image_name [''notes.txt'']) = []" by code_simp
  moreover have "is_sd_card_available (fs (world (card_with [''notes.txt'']) (Inr PyNone) 0))"
    by (simp add: world_def card_available)
  moreover have "listdir (fs (world (card_with [''notes.txt'']) (Inr PyNone) 0)) ''/sd'' = Inr [''notes.txt'']"
    by (simp add: world_def card_with_def)
  ultimately show ?thesis
    by (simp add: scan_result)
qed

lemma fresh_state_fits: "buffer_fits fresh_state"
  by (simp add: fresh_state_def buffer_fits_def blank_bitmap_def)

text \<open>Whenever \<^verbatim>\<open>exit_gallery_mode\<close> returns, the gallery is off and its list is empty.\<close>

lemma exit_gallery_mode_frame:
  assumes "exit_gallery_mode s = Inr s'"
  shows "\<not> gallery_mode s' \<and> gallery_images s' = [] \<and> gallery_index s' = 0
       \<and> mode_text s' = mode_text s \<and> timelapse_submode s' = timelapse_submode s
       \<and> effects s' = effects s @
            [LivePreviewMode, Refresh, Sleep 200, Refresh, Sleep 100, Refresh,
             DisplayMessage ''Camera Mode'' 0x00FF00, Sleep 500]"
proof -
  let ?s1 = "s\<lparr>gallery_mode := False, gallery_images := [], gallery_index := 0\<rparr>"
  from assms obtain buf where
    s': "s' = emit [LivePreviewMode, Refresh, Sleep 200, Refresh, Sleep 100, Refresh,
                    DisplayMessage ''Camera Mode'' 0x00FF00, Sleep 500]
               (if gallery_group (?s1\<lparr>gallery_image_buffer := buf\<rparr>) \<noteq> None
                then ?s1\<lparr>gallery_image_buffer := buf, gallery_group := None,
                         gallery_group_in_root := False\<rparr>
                else ?s1\<lparr>gallery_image_buffer := buf\<rparr>)"
    by (auto simp: exit_gallery_mode_def Let_def split: sum.splits)
  show ?thesis
    by (simp add: s' emit_def)
qed

lemma enter_gallery_mode_empty:
  assumes "fst (scan_gallery_images e s) = []"
  shows "enter_gallery_mode e s
           = exit_gallery_mode
               (emit [DisplayMessage ''No Photos'' 0xFFFF00, Sleep 1000]
                  (s\<lparr>gallery_mode := True, gallery_index := 0, gallery_zoom_level := 1,
                     gallery_images := []\<rparr>))"
proof -
  let ?s1 = "s\<lparr>gallery_mode := True, gallery_index := 0, gallery_zoom_level := 1\<rparr>"
  have "fst (scan_gallery_images e ?s1) = []"
    using scan_fst_any_state[of e ?s1 s] assms by simp
  moreover from this have "snd (scan_gallery_images e ?s1) = ?s1\<lparr>gallery_images := []\<rparr>"
    using scan_snd[of e ?s1] by simp
  ultimately have "scan_gallery_images e ?s1 = ([], ?s1\<lparr>gallery_images := []\<rparr>)"
    by (simp add: prod_eq_iff)
  then show ?thesis by (simp add: enter_gallery_mode_def)
qed

lemma enter_gallery_mode_found:
  assumes "fst (scan_gallery_images e s) \<noteq> []"
  shows "enter_gallery_mode e s
           = display_current_image e
               (emit [DisplayMessage ''Gallery Mode'' 0x00FF00, Sleep 500]
                  (s\<lparr>gallery_mode := True, gallery_index := 0, gallery_zoom_level := 1,
                     gallery_images := fst (scan_gallery_images e s)\<rparr>))"
proof -
  let ?s1 = "s\<lparr>gallery_mode := True, gallery_index := 0, gallery_zoom_level := 1\<rparr>"
  have f: "fst (scan_gallery_images e ?s1) = fst (scan_gallery_images e s)"
    by (rule scan_fst_any_state)
  have "snd (scan_gallery_images e ?s1) = ?s1\<lparr>gallery_images := fst (scan_gallery_images e s)\<rparr>"
    using scan_snd[of e ?s1] by (simp only: f)
  with f have "scan_gallery_images e ?s1
                 = (fst (scan_gallery_images e s),
                    ?s1\<lparr>gallery_images := fst (scan_gallery_images e s)\<rparr>)"
    by (simp add: prod_eq_iff)
  then show ?thesis using assms by (simp add: enter_gallery_mode_def)
qed

text \<open>
  Whenever \<^verbatim>\<open>enter_gallery_mode\<close> returns, the gallery is on exactly when the scan found
  something, and the capture mode and the time-lapse sub-mode are as they were.
\<close>

lemma enter_gallery_mode_frame:
  assumes "enter_gallery_mode e s = Inr s'"
  shows "gallery_mode s' = (fst (scan_gallery_images e s) \<noteq> [])
       \<and> mode_text s' = mode_text s \<and> timelapse_submode s' = timelapse_submode s
       \<and> (fst (scan_gallery_images e s) = [] \<longrightarrow>
             gallery_images s' = []
             \<and> effects s' = effects s @
                  [DisplayMessage ''No Photos'' 0xFFFF00, Sleep 1000,
                   LivePreviewMode, Refresh, Sleep 200, Refresh, Sleep 100, Refresh,
                   DisplayMessage ''Camera Mode'' 0x00FF00, Sleep 500])
       \<and> (fst (scan_gallery_images e s) \<noteq> [] \<longrightarrow>
             gallery_images s' = fst (scan_gallery_images e s)
             \<and> gallery_index s' = 0 \<and> gallery_zoom_level s' = 1)"
proof (cases "fst (scan_gallery_images e s) = []")
  case True
  let ?s3 = "emit [DisplayMessage ''No Photos'' 0xFFFF00, Sleep 1000]
               (s\<lparr>gallery_mode := True, gallery_index := 0, gallery_zoom_level := 1,
                  gallery_images := []\<rparr>)"
  have "exit_gallery_mode ?s3 = Inr s'"
    using assms enter_gallery_mode_empty[OF True] by (simp only:)
  from exit_gallery_mode_frame[OF this] show ?thesis
    using True by (simp add: emit_def)
next
  case False
  let ?s3 = "emit [DisplayMessage ''Gallery Mode'' 0x00FF00, Sleep 500]
               (s\<lparr>gallery_mode := True, gallery_index := 0, gallery_zoom_level := 1,
                  gallery_images := fst (scan_gallery_images e s)\<rparr>)"
  have "display_current_image e ?s3 = Inr s'"
    using assms enter_gallery_mode_found[OF False] by (simp only:)
  from display_current_image_frame[OF this] obtain b g r l where
    s': "s' = ?s3\<lparr>gallery_image_buffer := b, gallery_group := g,
                    gallery_group_in_root := r, effects := l\<rparr>"
    by (elim exE conjE)
  show ?thesis
    using False by (simp add: s' emit_def)
qed

text \<open>
  It returns when the buffer covers the frame and the first file found, if there is one,
  fails to load or loads to a bitmap with width and height.
\<close>

lemma enter_gallery_mode_returns:
  assumes "buffer_fits s"
    and "fst (scan_gallery_images e s) \<noteq> [] \<Longrightarrow>
           loads_nonempty e (s\<lparr>gallery_zoom_level := 1\<rparr>) (hd (fst (scan_gallery_images e s)))"
  shows "\<exists>s'. enter_gallery_mode e s = Inr s'"
proof (cases "fst (scan_gallery_images e s) = []")
  case True
  let ?s3 = "emit [DisplayMessage ''No Photos'' 0xFFFF00, Sleep 1000]
               (s\<lparr>gallery_mode := True, gallery_index := 0, gallery_zoom_level := 1,
                  gallery_images := []\<rparr>)"
  have "buffer_fits ?s3"
    using assms(1) by (simp add: buffer_fits_def emit_def split: option.splits)
  from exit_gallery_mode_ok[OF this] obtain buf where
    "exit_gallery_mode ?s3
           = Inr (?s3\<lparr>gallery_mode := False, gallery_images := [], gallery_index := 0,
                    gallery_image_buffer := Some buf, gallery_group := None,
                    gallery_group_in_root :=
                      (if gallery_group ?s3 \<noteq> None then False else gallery_group_in_root ?s3),
                    effects := effects ?s3 @
                      [LivePreviewMode, Refresh, Sleep 200, Refresh, Sleep 100, Refresh,
                       DisplayMessage ''Camera Mode'' 0x00FF00, Sleep 500]\<rparr>)"
    by (elim exE conjE)
  then have "\<exists>s'. exit_gallery_mode ?s3 = Inr s'" by (rule exI)
  then show ?thesis by (simp only: enter_gallery_mode_empty[OF True])
next
  case False
  let ?s3 = "emit [DisplayMessage ''Gallery Mode'' 0x00FF00, Sleep 500]
               (s\<lparr>gallery_mode := True, gallery_index := 0, gallery_zoom_level := 1,
                  gallery_images := fst (scan_gallery_images e s)\<rparr>)"
  have ready: "display_ready ?s3"
    using assms(1) by (simp add: display_ready_def buffer_fits_def emit_def split: option.splits)
  have "\<exists>s'. display_current_image e ?s3 = Inr s'"
  proof (rule display_current_image_returns[OF ready])
    fix f assume "py_index (gallery_images ?s3) (gallery_index ?s3) = Inr f"
    then have f: "f = hd (fst (scan_gallery_images e s))"
      using False by (simp add: py_index_def emit_def hd_conv_nth)
    have "loads_nonempty e ?s3 f = loads_nonempty e (s\<lparr>gallery_zoom_level := 1\<rparr>) f"
      by (rule loads_nonempty_depends) (simp_all add: emit_def)
    with assms(2)[OF False] f show "loads_nonempty e ?s3 f" by simp
  qed
  then show ?thesis by (simp only: enter_gallery_mode_found[OF False])
qed

lemma scan_two_photos:
  "fst (scan_gallery_images (world (card_with [''b.jpg'', ''a.jpg'']) (Inr PyNone) 0) fresh_state)
     = [''a.jpg'', ''b.jpg'']"
proof -
  have "sort (filter is_image_name [''b.jpg'', ''a.jpg'']) = [''a.jpg'', ''b.jpg'']" by code_simp
  moreover have "is_sd_card_available (fs (world (card_with [''b.jpg'', ''a.jpg'']) (Inr PyNone) 0))"
    by (simp add: world_def card_available)
  moreover have "listdir (fs (world (card_with [''b.jpg'', ''a.jpg'']) (Inr PyNone) 0)) ''/sd'' = Inr [''b.jpg'', ''a.jpg'']"
    by (simp add: world_def card_with_def)
  ultimately show ?thesis
    by (simp add: scan_result)
qed

lemma fresh_state_loads:
  "loads_nonempty (world fsys r k) (fresh_state\<lparr>gallery_zoom_level := 1\<rparr>) f"
  by (rule vga_loads_nonempty) (simp_all add: fresh_state_def)

lemma first_photo:
  "map_option (\<lambda>b. (bm_width b, bm_height b))
     (fst (load_image_file (world (card_with [''b.jpg'', ''a.jpg'']) (Inr PyNone) 0)
             (fresh_state\<lparr>gallery_zoom_level := 1\<rparr>) ''a.jpg'')) = Some (320, 240)"
proof -
  have n: "endswith (lower ''a.jpg'') ''.jpg''" by code_simp
  show ?thesis
    using vga_load[of 1 "card_with [''b.jpg'', ''a.jpg'']" "Inr PyNone" 0 "''a.jpg''"] n
    by (simp add: load_image_file_def Let_def)
qed

text \<open>
  C4. Whenever \<^verbatim>\<open>enter_gallery_mode\<close> returns, the gallery is active only with a
  non-empty file list. When the scan found nothing it has shown the notice
  \<^verbatim>\<open>No Photos\<close>, waited a second and left through \<^verbatim>\<open>exit_gallery_mode\<close>: the gallery
  is inactive, the list is empty and the live preview is restored. When the scan found
  files the gallery is active on the scanned list with index 0 and zoom level 1. The
  function does return on an empty scan when the gallery buffer covers the camera frame,
  and on a non-empty scan when, besides, the first file found fails to load or loads to
  a bitmap with width and height; for a bitmap without, \<^verbatim>\<open>displayio.TileGrid\<close> raises,
  and \<^verbatim>\<open>enter_gallery_mode\<close> does not catch it.
\<close>

theorem enter_gallery_mode_never_active_and_empty:
  "(\<forall>s'. enter_gallery_mode e s = Inr s' \<longrightarrow>
        (gallery_mode s' \<longrightarrow> gallery_images s' \<noteq> [])
        \<and> (fst (scan_gallery_images e s) = [] \<longrightarrow>
              \<not> gallery_mode s' \<and> gallery_images s' = []
              \<and> effects s' = effects s @
                   [DisplayMessage ''No Photos'' 0xFFFF00, Sleep 1000,
                    LivePreviewMode, Refresh, Sleep 200, Refresh, Sleep 100, Refresh,
                    DisplayMessage ''Camera Mode'' 0x00FF00, Sleep 500])
        \<and> (fst (scan_gallery_images e s) \<noteq> [] \<longrightarrow>
              gallery_mode s' \<and> gallery_images s' = fst (scan_gallery_images e s)
              \<and> gallery_index s' = 0 \<and> gallery_zoom_level s' = 1))
   \<and> (buffer_fits s \<and> fst (scan_gallery_images e s) = [] \<longrightarrow>
        (\<exists>s'. enter_gallery_mode e s = Inr s'))
   \<and> (buffer_fits s \<and> fst (scan_gallery_images e s) \<noteq> []
        \<and> loads_nonempty e (s\<lparr>gallery_zoom_level := 1\<rparr>) (hd (fst (scan_gallery_images e s))) \<longrightarrow>
        (\<exists>s'. enter_gallery_mode e s = Inr s'))"
proof (intro conjI allI impI)
  fix s' assume r: "enter_gallery_mode e s = Inr s'"
  note f = enter_gallery_mode_frame[OF r]
  { assume "gallery_mode s'"
    with f show "gallery_images s' \<noteq> []" by auto }
  { assume "fst (scan_gallery_images e s) = []"
    with f show "\<not> gallery_mode s'" by simp }
  { assume "fst (scan_gallery_images e s) = []"
    with f show "gallery_images s' = []" by simp }
  { assume "fst (scan_gallery_images e s) = []"
    with f show "effects s' = effects s @
                   [DisplayMessage ''No Photos'' 0xFFFF00, Sleep 1000,
                    LivePreviewMode, Refresh, Sleep 200, Refresh, Sleep 100, Refresh,
                    DisplayMessage ''Camera Mode'' 0x00FF00, Sleep 500]" by simp }
  { assume "fst (scan_gallery_images e s) \<noteq> []"
    with f show "gallery_mode s'" by simp }
  { assume "fst (scan_gallery_images e s) \<noteq> []"
    with f show "gallery_images s' = fst (scan_gallery_images e s)" by simp }
  { assume "fst (scan_gallery_images e s) \<noteq> []"
    with f show "gallery_index s' = 0" by simp }
  { assume "fst (scan_gallery_images e s) \<noteq> []"
    with f show "gallery_zoom_level s' = 1" by simp }
next
  assume "buffer_fits s \<and> fst (scan_gallery_images e s) = []"
  then show "\<exists>s'. enter_gallery_mode e s = Inr s'"
    using enter_gallery_mode_returns[of s e] by simp
next
  assume "buffer_fits s \<and> fst (scan_gallery_images e s) \<noteq> []
        \<and> loads_nonempty e (s\<lparr>gallery_zoom_level := 1\<rparr>) (hd (fst (scan_gallery_images e s)))"
  then show "\<exists>s'. enter_gallery_mode e s = Inr s'"
    using enter_gallery_mode_returns[of s e] by simp
qed

text \<open>
  A card holding only a text file, and a card holding two photographs, the first of
  which is decoded to 320 by 240.
\<close>

theorem enter_gallery_mode_with_and_without_photos:
  "buffer_fits fresh_state
   \<and> fst (scan_gallery_images (world (card_with [''notes.txt'']) (Inr PyNone) 0) fresh_state) = []
   \<and> (\<exists>s'. enter_gallery_mode (world (card_with [''notes.txt'']) (Inr PyNone) 0) fresh_state = Inr s'
          \<and> \<not> gallery_mode s' \<and> gallery_images s' = []
          \<and> effects s' = [DisplayMessage ''No Photos'' 0xFFFF00, Sleep 1000,
                           LivePreviewMode, Refresh, Sleep 200, Refresh, Sleep 100, Refresh,
                           DisplayMessage ''Camera Mode'' 0x00FF00, Sleep 500])
   \<and> fst (scan_gallery_images (world (card_with [''b.jpg'', ''a.jpg'']) (Inr PyNone) 0) fresh_state)
       = [''a.jpg'', ''b.jpg'']
   \<and> map_option (\<lambda>b. (bm_width b, bm_height b))
       (fst (load_image_file (world (card_with [''b.jpg'', ''a.jpg'']) (Inr PyNone) 0)
               (fresh_state\<lparr>gallery_zoom_level := 1\<rparr>) ''a.jpg'')) = Some (320, 240)
   \<and> loads_nonempty (world (card_with [''b.jpg'', ''a.jpg'']) (Inr PyNone) 0)
       (fresh_state\<lparr>gallery_zoom_level := 1\<rparr>) ''a.jpg''
   \<and> (\<exists>s'. enter_gallery_mode (world (card_with [''b.jpg'', ''a.jpg'']) (Inr PyNone) 0) fresh_state = Inr s'
          \<and> gallery_mode s' \<and> gallery_images s' = [''a.jpg'', ''b.jpg'']
          \<and> gallery_index s' = 0 \<and> gallery_zoom_level s' = 1)"
proof -
  let ?n = "world (card_with [''notes.txt'']) (Inr PyNone) 0"
  let ?p = "world (card_with [''b.jpg'', ''a.jpg'']) (Inr PyNone) 0"
  have e0: "effects fresh_state = []" by (simp add: fresh_state_def)
  note tn = enter_gallery_mode_never_active_and_empty[of ?n fresh_state]
  note tp = enter_gallery_mode_never_active_and_empty[of ?p fresh_state]
  have "\<exists>a. enter_gallery_mode ?n fresh_state = Inr a"
    by (rule tn[THEN conjunct2, THEN conjunct1, rule_format])
       (intro conjI fresh_state_fits scan_notes_only)
  then obtain a where a: "enter_gallery_mode ?n fresh_state = Inr a" by (elim exE)
  have ld: "loads_nonempty ?p (fresh_state\<lparr>gallery_zoom_level := 1\<rparr>) ''a.jpg''"
    by (rule fresh_state_loads)
  have "\<exists>b. enter_gallery_mode ?p fresh_state = Inr b"
    by (rule tp[THEN conjunct2, THEN conjunct2, rule_format])
       (simp add: fresh_state_fits scan_two_photos ld)
  then obtain b where b: "enter_gallery_mode ?p fresh_state = Inr b" by (elim exE)
  from tn[THEN conjunct1, rule_format, OF a] have
    "fst (scan_gallery_images ?n fresh_state) = [] \<longrightarrow>
              \<not> gallery_mode a \<and> gallery_images a = []
              \<and> effects a = effects fresh_state @
                   [DisplayMessage ''No Photos'' 0xFFFF00, Sleep 1000,
                    LivePreviewMode, Refresh, Sleep 200, Refresh, Sleep 100, Refresh,
                    DisplayMessage ''Camera Mode'' 0x00FF00, Sleep 500]"
    by (elim conjE)
  from this[rule_format, OF scan_notes_only] have
    ka: "\<not> gallery_mode a" "gallery_images a = []"
        "effects a = [DisplayMessage ''No Photos'' 0xFFFF00, Sleep 1000,
                      LivePreviewMode, Refresh, Sleep 200, Refresh, Sleep 100, Refresh,
                      DisplayMessage ''Camera Mode'' 0x00FF00, Sleep 500]"
    by (simp_all add: e0)
  from tp[THEN conjunct1, rule_format, OF b] have
    "fst (scan_gallery_images ?p fresh_state) \<noteq> [] \<longrightarrow>
              gallery_mode b \<and> gallery_images b = fst (scan_gallery_images ?p fresh_state)
              \<and> gallery_index b = 0 \<and> gallery_zoom_level b = 1"
    by (elim conjE)
  then have
    kb: "gallery_mode b" "gallery_images b = [''a.jpg'', ''b.jpg'']"
        "gallery_index b = 0" "gallery_zoom_level b = 1"
    by (simp_all add: scan_two_photos)
  have A: "\<exists>s'. enter_gallery_mode ?n fresh_state = Inr s'
          \<and> \<not> gallery_mode s' \<and> gallery_images s' = []
          \<and> effects s' = [DisplayMessage ''No Photos'' 0xFFFF00, Sleep 1000,
                           LivePreviewMode, Refresh, Sleep 200, Refresh, Sleep 100, Refresh,
                           DisplayMessage ''Camera Mode'' 0x00FF00, Sleep 500]"
    using a ka by (intro exI conjI)
  have B: "\<exists>s'. enter_gallery_mode ?p fresh_state = Inr s'
          \<and> gallery_mode s' \<and> gallery_images s' = [''a.jpg'', ''b.jpg'']
          \<and> gallery_index s' = 0 \<and> gallery_zoom_level s' = 1"
    using b kb by (intro exI conjI)
  show ?thesis
    using fresh_state_fits scan_notes_only A scan_two_photos first_photo ld B by (intro conjI)
qed

section \<open>Captures without a card\<close>

lemma preview_only:
  assumes "\<not> is_sd_card_available (fs e)"
  shows "safe_capture_operation e cf s
           = Some (Inr (PyBool False,
                emit [DisplayMessage ''Preview Only'' 0xFFFF00, Sleep 1000] s))"
  using assms by (simp add: safe_capture_operation_def show_capture_status_def)

lemma world_no_card: "\<not> is_sd_card_available (fs (world no_card r k))"
  by (simp add: world_def no_card_unavailable)

text \<open>
  C2, as the code has it. Without a card, \<^verbatim>\<open>safe_capture_operation\<close> returns
  \<^verbatim>\<open>False\<close> without calling the capture function and shows \<^verbatim>\<open>Preview Only\<close> for a
  second; and a short press in stop-motion mode first puts the sensor's next frame into
  the last-frame buffer and increments the frame counter, then shows \<^verbatim>\<open>Snap!\<close>, the
  preview-only message, and returns to the live preview: nothing is written (no call of
  \<^verbatim>\<open>capture_jpeg\<close> among the effects), but the last-frame buffer holds the new frame.
\<close>

theorem stop_motion_capture_without_card:
  assumes "\<not> is_sd_card_available (fs e)"
  shows "safe_capture_operation e cf s1
           = Some (Inr (PyBool False,
                emit [DisplayMessage ''Preview Only'' 0xFFFF00, Sleep 1000] s1))
       \<and> handle_stop_motion_capture e s
           = Some (Inr (s\<lparr>last_frame := live_frames e (frames_taken s),
                           stop_motion_frame := stop_motion_frame s + 1,
                           frames_taken := frames_taken s + 1,
                           effects := effects s @
                             [DisplayMessage ''Snap!'' 0x0000FF,
                              DisplayMessage ''Preview Only'' 0xFFFF00, Sleep 1000,
                              LivePreviewMode]\<rparr>))"
proof -
  have "handle_stop_motion_capture e s
           = Some (Inr (s\<lparr>last_frame := live_frames e (frames_taken s),
                           stop_motion_frame := stop_motion_frame s + 1,
                           frames_taken := frames_taken s + 1,
                           effects := effects s @
                             [DisplayMessage ''Snap!'' 0x0000FF,
                              DisplayMessage ''Preview Only'' 0xFFFF00, Sleep 1000,
                              LivePreviewMode]\<rparr>))"
    by (simp add: handle_stop_motion_capture_def preview_only[OF assms] Let_def
          capture_into_last_frame_def continuous_capture_def emit_def)
  then show ?thesis using preview_only[OF assms] by simp
qed

text \<open>A press without a card, on a fresh device whose sensor delivers a frame with one lit pixel.\<close>

theorem stop_motion_capture_no_card_run:
  "\<not> is_sd_card_available (fs (world no_card (Inr PyNone) 0))
   \<and> handle_stop_motion_capture (world no_card (Inr PyNone) 0) fresh_state
       = Some (Inr (fresh_state\<lparr>last_frame := \<lparr>bm_width = 2, bm_height = 2, bm_pixels = [1, 0, 0, 0]\<rparr>,
                           stop_motion_frame := 1,
                           frames_taken := 1,
                           effects :=
                             [DisplayMessage ''Snap!'' 0x0000FF,
                              DisplayMessage ''Preview Only'' 0xFFFF00, Sleep 1000,
                              LivePreviewMode]\<rparr>))"
proof -
  let ?e = "world no_card (Inr PyNone) 0"
  have f: "live_frames ?e 0
                   = \<lparr>bm_width = 2, bm_height = 2, bm_pixels = [1, 0, 0, 0]\<rparr>"
    "stop_motion_frame fresh_state = 0" "frames_taken fresh_state = 0" "effects fresh_state = []"
    by (simp_all add: world_def fresh_state_def)
  from stop_motion_capture_without_card[OF world_no_card, of "Inr PyNone" 0 "capture_jpeg (world no_card (Inr PyNone) 0)" fresh_state fresh_state]
  show ?thesis using world_no_card by (simp add: f)
qed

text \<open>
  C2 as stated fails: after that press the last-frame buffer is no longer the blank
  frame it was.
\<close>

theorem stop_motion_capture_changes_last_frame:
  "\<not> is_sd_card_available (fs (world no_card (Inr PyNone) 0))
   \<and> last_frame fresh_state = \<lparr>bm_width = 2, bm_height = 2, bm_pixels = [0, 0, 0, 0]\<rparr>
   \<and> (\<exists>s'. handle_stop_motion_capture (world no_card (Inr PyNone) 0) fresh_state = Some (Inr s')
          \<and> last_frame s' = \<lparr>bm_width = 2, bm_height = 2, bm_pixels = [1, 0, 0, 0]\<rparr>
          \<and> last_frame s' \<noteq> last_frame fresh_state)"
proof -
  let ?e = "world no_card (Inr PyNone) 0"
  have lf: "last_frame fresh_state = \<lparr>bm_width = 2, bm_height = 2, bm_pixels = [0, 0, 0, 0]\<rparr>"
    by (simp add: fresh_state_def blank_bitmap_def numeral_eq_Suc)
  have "handle_stop_motion_capture ?e fresh_state
           = Some (Inr (fresh_state\<lparr>last_frame := live_frames ?e (frames_taken fresh_state),
                           stop_motion_frame := stop_motion_frame fresh_state + 1,
                           frames_taken := frames_taken fresh_state + 1,
                           effects := effects fresh_state @
                             [DisplayMessage ''Snap!'' 0x0000FF,
                              DisplayMessage ''Preview Only'' 0xFFFF00, Sleep 1000,
                              LivePreviewMode]\<rparr>))"
    by (simp add: handle_stop_motion_capture_def preview_only[OF world_no_card] Let_def
          capture_into_last_frame_def continuous_capture_def emit_def)
  moreover have "live_frames ?e (frames_taken fresh_state)
                   = \<lparr>bm_width = 2, bm_height = 2, bm_pixels = [1, 0, 0, 0]\<rparr>"
    by (simp add: world_def fresh_state_def)
  ultimately show ?thesis
    using lf world_no_card by simp
qed

section \<open>A time-lapse capture that fails\<close>

lemma safe_capture_jpeg_handled:
  assumes "\<not> is_sd_card_available (fs e) \<or> (\<exists>v. capture_jpeg_result e = Inr v)
           \<or> capture_jpeg_result e \<in> {Inl TypeError, Inl RuntimeError, Inl OSError}"
  shows "\<exists>v es. safe_capture_operation e (capture_jpeg e) s = Some (Inr (v, emit es s))
           \<and> (if \<not> is_sd_card_available (fs e) then DisplayMessage ''Preview Only'' 0xFFFF00
               else case capture_jpeg_result e of
                      Inr v \<Rightarrow> DisplayMessage ''Saved!'' 0x00FF00
                    | Inl err \<Rightarrow> DisplayMessage ''Failed'' 0xFF0000) \<in> set es"
proof (cases "is_sd_card_available (fs e)")
  case False
  then have "safe_capture_operation e (capture_jpeg e) s
               = Some (Inr (PyBool False, emit [DisplayMessage ''Preview Only'' 0xFFFF00, Sleep 1000] s))"
    by (rule preview_only)
  then show ?thesis using False by fastforce
next
  case True
  show ?thesis
  proof (cases "capture_jpeg_result e")
    case (Inr v)
    have "safe_capture_operation e (capture_jpeg e) s
            = Some (Inr (v, emit [CaptureJpeg, DisplayMessage ''Saved!'' 0x00FF00] s))"
      using True Inr
      by (simp add: safe_capture_operation_def capture_jpeg_def show_capture_status_def emit_def)
    then show ?thesis using True Inr by fastforce
  next
    case (Inl err)
    with assms True have "err = TypeError \<or> err = RuntimeError \<or> err = OSError" by auto
    then have "safe_capture_operation e (capture_jpeg e) s
            = Some (Inr (PyBool False,
                 emit [CaptureJpeg, DisplayMessage ''Failed'' 0xFF0000, Sleep 500] s))"
      using True Inl
      by (auto simp add: safe_capture_operation_def capture_jpeg_def show_capture_status_def emit_def)
    then show ?thesis using True Inl by fastforce
  qed
qed

lemma lapsing_facts:
  "timelapse_remaining lapsing = Some 3" "timelapse_timestamp lapsing = Some 999"
  "timelapse_interval lapsing = 5" "timelapse_submode_label lapsing = ''HiPwr''"
  by (simp_all add: lapsing_def fresh_state_def)

lemma world_facts:
  "is_sd_card_available (fs (world (card_with files) r k))"
  "capture_jpeg_result (world fsys r k) = r"
  "time_time (world fsys r k) 0 = 1000" "time_time (world fsys r k) 1 = 1003"
  "time_time (world fsys r k) (Suc 0) = 1003"
  by (simp_all add: world_def card_available)

text \<open>
  C8, as the code has it. When a running time lapse is due (the timestamp is not after
  the clock), and the capture either succeeds, or finds no card, or raises one of the
  three exceptions that \<^verbatim>\<open>safe_capture_operation\<close> catches (\<^verbatim>\<open>TypeError\<close>,
  \<^verbatim>\<open>RuntimeError\<close>, \<^verbatim>\<open>OSError\<close>), then \<^verbatim>\<open>handle_timelapse_mode\<close> returns normally, the
  status message (\<^verbatim>\<open>Saved!\<close>, \<^verbatim>\<open>Preview Only\<close> or \<^verbatim>\<open>Failed\<close>) has been shown, the
  time lapse is still running, and the next capture is due at the clock read after the
  capture plus the interval plus one.
\<close>

theorem timelapse_fire_reschedules_after_handled_failure:
  assumes "timelapse_remaining s = Some old" and "timelapse_timestamp s = Some ts"
    and "ts - time_time e 0 \<le> 0"
    and "\<not> is_sd_card_available (fs e) \<or> (\<exists>v. capture_jpeg_result e = Inr v)
         \<or> capture_jpeg_result e \<in> {Inl TypeError, Inl RuntimeError, Inl OSError}"
  shows "\<exists>s'. handle_timelapse_mode e s = Some (Inr s')
          \<and> timelapse_timestamp s' = Some (time_time e 1 + timelapse_interval s + 1)
          \<and> timelapse_remaining s' = Some (ts - time_time e 0)
          \<and> (if \<not> is_sd_card_available (fs e) then DisplayMessage ''Preview Only'' 0xFFFF00
              else case capture_jpeg_result e of
                     Inr v \<Rightarrow> DisplayMessage ''Saved!'' 0x00FF00
                   | Inl err \<Rightarrow> DisplayMessage ''Failed'' 0xFF0000) \<in> set (effects s')"
proof -
  let ?r = "ts - time_time e 0"
  let ?s1 = "s\<lparr>timelapse_remaining := Some ?r, timelapsestatus_label := str_int ?r @ ''s /    ''\<rparr>"
  let ?s2 = "if timelapse_submode_label ?s1 = ''HiPwr'' then blit_live e ?s1 else ?s1"
  let ?s3 = "?s2\<lparr>display_brightness := (if timelapse_submode_label ?s2 = ''LowPwr'' then 5 else 100)\<rparr>"
  let ?s4 = "emit [Refresh] ?s3"
  let ?s5 = "emit [DisplayMessage ''Snap!'' 0x0000FF] (blit_live e ?s4)"
  let ?msg = "if \<not> is_sd_card_available (fs e) then DisplayMessage ''Preview Only'' 0xFFFF00
              else case capture_jpeg_result e of
                     Inr v \<Rightarrow> DisplayMessage ''Saved!'' 0x00FF00
                   | Inl err \<Rightarrow> DisplayMessage ''Failed'' 0xFF0000"
  have keep2: "timelapse_remaining ?s2 = Some ?r" "timelapse_interval ?s2 = timelapse_interval s"
    by (simp_all add: blit_live_def continuous_capture_def emit_def)
  have keep4: "timelapse_remaining ?s4 = Some ?r" "timelapse_interval ?s4 = timelapse_interval s"
    using keep2 by (simp_all add: emit_def)
  have keep5: "timelapse_remaining ?s5 = Some ?r" "timelapse_interval ?s5 = timelapse_interval s"
    using keep4 by (simp_all add: blit_live_def continuous_capture_def emit_def)
  from safe_capture_jpeg_handled[OF assms(4), of ?s5] obtain v es where
    cap: "safe_capture_operation e (capture_jpeg e) ?s5 = Some (Inr (v, emit es ?s5))"
    and msg: "?msg \<in> set es"
    by blast
  let ?s7 = "blit_live e (emit [LivePreviewMode, Refresh] (emit es ?s5))"
  let ?s' = "?s7\<lparr>timelapse_timestamp := Some (time_time e 1 + timelapse_interval ?s7 + 1)\<rparr>"
  have run: "handle_timelapse_mode e s = Some (Inr ?s')"
    unfolding handle_timelapse_mode_def
    using assms(1,2,3) keep2 keep4 cap
    by (simp add: Let_def del: One_nat_def)
  have i7: "timelapse_interval ?s7 = timelapse_interval s"
    using keep5 by (simp add: blit_live_def continuous_capture_def emit_def)
  have r7: "timelapse_remaining ?s7 = Some ?r"
    using keep5 by (simp add: blit_live_def continuous_capture_def emit_def)
  have e7: "?msg \<in> set (effects ?s7)"
    using msg by (simp add: blit_live_def continuous_capture_def emit_def)
  have "timelapse_timestamp ?s' = Some (time_time e 1 + timelapse_interval s + 1)"
    using i7 by simp
  moreover have "timelapse_remaining ?s' = Some ?r" using r7 by simp
  moreover have "?msg \<in> set (effects ?s')" using e7 by simp
  ultimately show ?thesis using run by blast
qed

text \<open>
  A capture due since 999, run at 1000, fails with \<^verbatim>\<open>OSError\<close>; the clock then reads
  1003 and the interval is 5.
\<close>

theorem timelapse_fire_with_write_error:
  "timelapse_remaining lapsing = Some 3 \<and> timelapse_timestamp lapsing = Some 999
   \<and> time_time (world (card_with []) (Inl OSError) 0) 0 = 1000
   \<and> is_sd_card_available (fs (world (card_with []) (Inl OSError) 0))
   \<and> capture_jpeg_result (world (card_with []) (Inl OSError) 0) = Inl OSError
   \<and> (\<exists>s'. handle_timelapse_mode (world (card_with []) (Inl OSError) 0) lapsing = Some (Inr s')
          \<and> timelapse_timestamp s' = Some 1009
          \<and> timelapse_remaining s' = Some (- 1)
          \<and> DisplayMessage ''Failed'' 0xFF0000 \<in> set (effects s'))"
proof -
  let ?e = "world (card_with []) (Inl OSError) 0"
  have h3: "999 - time_time ?e 0 \<le> 0" by (simp add: world_facts)
  have h4: "\<not> is_sd_card_available (fs ?e) \<or> (\<exists>v. capture_jpeg_result ?e = Inr v)
         \<or> capture_jpeg_result ?e \<in> {Inl TypeError, Inl RuntimeError, Inl OSError}"
    by (simp add: world_facts)
  from timelapse_fire_reschedules_after_handled_failure[OF lapsing_facts(1,2) h3 h4]
  have "\<exists>s'. handle_timelapse_mode ?e lapsing = Some (Inr s')
          \<and> timelapse_timestamp s' = Some 1009
          \<and> timelapse_remaining s' = Some (- 1)
          \<and> DisplayMessage ''Failed'' 0xFF0000 \<in> set (effects s')"
    by (simp add: world_facts lapsing_facts)
  then show ?thesis by (simp add: world_facts lapsing_facts)
qed

text \<open>
  C8 as stated fails: when the capture raises \<^verbatim>\<open>MemoryError\<close>, which the wrapper does
  not catch, the exception leaves \<^verbatim>\<open>handle_timelapse_mode\<close> and nothing is rescheduled.
\<close>

theorem timelapse_fire_with_memory_error:
  "timelapse_remaining lapsing = Some 3 \<and> timelapse_timestamp lapsing = Some 999
   \<and> time_time (world (card_with []) (Inl MemoryError) 0) 0 = 1000
   \<and> is_sd_card_available (fs (world (card_with []) (Inl MemoryError) 0))
   \<and> capture_jpeg_result (world (card_with []) (Inl MemoryError) 0) = Inl MemoryError
   \<and> handle_timelapse_mode (world (card_with []) (Inl MemoryError) 0) lapsing
       = Some (Inl MemoryError)"
proof -
  let ?e = "world (card_with []) (Inl MemoryError) 0"
  have cap: "safe_capture_operation ?e (capture_jpeg ?e) s = Some (Inl MemoryError)" for s
    by (simp add: safe_capture_operation_def capture_jpeg_def world_facts)
  have "handle_timelapse_mode ?e lapsing = Some (Inl MemoryError)"
    unfolding handle_timelapse_mode_def
    by (simp add: Let_def lapsing_facts world_facts cap blit_live_def continuous_capture_def
          emit_def del: One_nat_def)
  then show ?thesis by (simp add: world_facts lapsing_facts)
qed

section \<open>The recording loop\<close>

lemma recorded_0: "recorded e c 0 = []"
  by (simp add: recorded_def)

lemma recorded_Suc:
  "recorded e c (Suc m)
     = [GifAddFrame (live_frames e c), Blit (live_frames e c)] @ recorded e (Suc c) m"
proof -
  have "[c..<c + Suc m] = c # [Suc c..<Suc c + m]"
    by (simp add: upt_conv_Cons)
  then show ?thesis by (simp add: recorded_def)
qed

lemma count_recorded:
  "count_list (recorded e c m) FileClose = 0" "count_list (recorded e c m) GifWriterExit = 0"
  by (induction m arbitrary: c) (simp_all add: recorded_0 recorded_Suc)

lemma gif_loop_reaches:
  assumes "i \<le> n" and "15 \<le> n" and "shutter_button_value e n"
    and "\<forall>k. 15 \<le> k \<and> k < n \<longrightarrow> \<not> shutter_button_value e k"
    and "\<forall>k. 1 \<le> k \<and> k \<le> n \<longrightarrow> add_frame e k = None"
    and "\<forall>k<n. monotonic e (Suc k) \<noteq> monotonic e k"
  shows "gif_loop e i (monotonic e i) s
           = Some (Inr (n, monotonic e n),
                   s\<lparr>frames_taken := frames_taken s + (n - i),
                     effects := effects s @ recorded e (frames_taken s) (n - i)\<rparr>)"
  using assms(1)
proof (induction "n - i" arbitrary: i s)
  case 0
  then have "i = n" by simp
  then show ?case
    using assms(2,3) by (subst gif_loop.simps) (simp add: recorded_0)
next
  case (Suc d)
  then have lt: "i < n" and d: "d = n - Suc i" and le: "Suc i \<le> n" by simp_all
  have guard: "i < 15 \<or> \<not> shutter_button_value e i"
    using assms(4) lt by (cases "i < 15") simp_all
  have ok: "add_frame e (i + 1) = None" using assms(5) lt by simp
  have tick: "monotonic e (i + 1) \<noteq> monotonic e i" using assms(6) lt by simp
  let ?f = "live_frames e (frames_taken s)"
  let ?s2 = "emit [GifAddFrame ?f, Blit ?f] (s\<lparr>frames_taken := frames_taken s + 1\<rparr>)"
  have step: "gif_loop e i (monotonic e i) s = gif_loop e (Suc i) (monotonic e (Suc i)) ?s2"
    using guard ok tick
    by (subst gif_loop.simps) (simp add: Let_def continuous_capture_def)
  from Suc.hyps(1)[OF d le, of ?s2]
  have "gif_loop e (Suc i) (monotonic e (Suc i)) ?s2
          = Some (Inr (n, monotonic e n),
                  ?s2\<lparr>frames_taken := frames_taken ?s2 + (n - Suc i),
                      effects := effects ?s2 @ recorded e (frames_taken ?s2) (n - Suc i)\<rparr>)" .
  moreover have "?s2\<lparr>frames_taken := frames_taken ?s2 + (n - Suc i),
                      effects := effects ?s2 @ recorded e (frames_taken ?s2) (n - Suc i)\<rparr>
               = s\<lparr>frames_taken := frames_taken s + (n - i),
                     effects := effects s @ recorded e (frames_taken s) (n - i)\<rparr>"
  proof -
    have n: "n - i = Suc (n - Suc i)" using lt by simp
    show ?thesis
      by (simp add: emit_def n recorded_Suc)
  qed
  ultimately show ?case using step by simp
qed

lemma gif_loop_exit_only:
  assumes "gif_loop e i t0 s = Some y"
  shows "\<forall>n t s'. y = (Inr (n, t), s') \<longrightarrow> 15 \<le> n \<and> shutter_button_value e n"
proof (rule gif_loop.raw_induct
         [where P = "\<lambda>e i t0 s y. \<forall>n t s'. y = (Inr (n, t), s')
                        \<longrightarrow> 15 \<le> n \<and> shutter_button_value e n"])
  show "gif_loop e i t0 s = Some y" by fact
next
  fix loop :: "env \<Rightarrow> nat \<Rightarrow> int \<Rightarrow> state \<Rightarrow> ((py_error + nat \<times> int) \<times> state) option"
  fix e i t0 s y
  assume IH: "\<And>i t0 s b y. loop i t0 s b = Some y \<Longrightarrow>
                \<forall>n t s'. y = (Inr (n, t), s') \<longrightarrow> 15 \<le> n \<and> shutter_button_value i n"
  assume body:
    "(if i < 15 \<or> \<not> shutter_button_value e i
      then let s1 = snd (continuous_capture e s);
               gifframe = fst (continuous_capture e s)
           in case add_frame e (i + 1) of
              None \<Rightarrow>
                let s2 = emit [GifAddFrame gifframe, Blit gifframe] s1;
                    t1 = monotonic e (i + 1)
                in if t1 = t0 then Some (Inl ZeroDivisionError, s2)
                   else loop e (i + 1) t1 s2
              | Some err \<Rightarrow> Some (Inl err, s1)
      else Some (Inr (i, t0), s)) = Some y"
  show "\<forall>n t s'. y = (Inr (n, t), s') \<longrightarrow> 15 \<le> n \<and> shutter_button_value e n"
  proof (cases "i < 15 \<or> \<not> shutter_button_value e i")
    case False
    with body show ?thesis by auto
  next
    case True
    show ?thesis
    proof (cases "add_frame e (i + 1)")
      case (Some err)
      with True body show ?thesis by (auto simp: Let_def)
    next
      case None
      show ?thesis
      proof (cases "monotonic e (i + 1) = t0")
        case eq: True
        with True None body show ?thesis by (auto simp: Let_def)
      next
        case neq: False
        with True None body have
          "loop e (i + 1) (monotonic e (i + 1))
             (emit [GifAddFrame (fst (continuous_capture e s)), Blit (fst (continuous_capture e s))]
                (snd (continuous_capture e s))) = Some y"
          by (simp add: Let_def)
        from IH[OF this] show ?thesis .
      qed
    qed
  qed
qed

lemma capture_animated_gif_run:
  assumes "open_next_image e = None" and "gif_writer_init e = None"
    and "\<forall>k. 1 \<le> k \<and> k \<le> n \<longrightarrow> add_frame e k = None"
    and "\<forall>k<n. monotonic e (Suc k) \<noteq> monotonic e k"
    and "monotonic e n \<noteq> monotonic e 0"
    and "15 \<le> n" and "shutter_button_value e n"
    and "\<forall>k. 15 \<le> k \<and> k < n \<longrightarrow> \<not> shutter_button_value e k"
  shows "capture_animated_gif e s
           = Some (Inr (PyBool True),
                   s\<lparr>mode_label := ''GIF'', frames_taken := frames_taken s + n,
                     effects := effects s @ [OpenNextImage ''gif'', Refresh, GifWriterEnter]
                        @ recorded e (frames_taken s) n @ [GifWriterExit, FileClose, Refresh]\<rparr>)"
proof -
  let ?s1 = "emit [Refresh] ((emit [OpenNextImage ''gif''] s)\<lparr>mode_label := ''RECORDING''\<rparr>)"
  let ?s0 = "emit [GifWriterEnter] ?s1"
  have loop: "gif_loop e 0 (monotonic e 0) ?s0
           = Some (Inr (n, monotonic e n),
                   ?s0\<lparr>frames_taken := frames_taken ?s0 + (n - 0),
                     effects := effects ?s0 @ recorded e (frames_taken ?s0) (n - 0)\<rparr>)"
    by (rule gif_loop_reaches[OF _ assms(6,7,8,3,4)]) simp
  show ?thesis
    unfolding capture_animated_gif_def
    using assms(1,2,5) by (simp add: loop Let_def) (simp add: emit_def)
qed

text \<open>
  C3. Let the card be present, the file and the writer open, the frames be added without
  an exception and the clock move between frames, and let n be the first frame count
  from 15 on at which the shutter pin reads released, every earlier reading from 15 on
  being pressed. Then \<^verbatim>\<open>handle_gif_capture\<close> returns normally having recorded exactly
  n frames; the writer is left once and the file is closed once, after the last frame;
  the mode label is back to \<^verbatim>\<open>GIF\<close> and \<^verbatim>\<open>Saved!\<close> is shown. If the button was
  released before 15 frames and stayed released, n is 15: recording goes on past the
  release up to the minimum. And whenever the loop ends normally, from any start, it
  ends with a count of at least 15 at which the pin reads released. The pin is read in
  the loop condition, once the count has reached 15, before every further frame.
\<close>

theorem gif_recording_ends_at_minimum_and_release:
  assumes "is_sd_card_available (fs e)"
    and "open_next_image e = None" and "gif_writer_init e = None"
    and "\<forall>k. 1 \<le> k \<and> k \<le> n \<longrightarrow> add_frame e k = None"
    and "\<forall>k<n. monotonic e (Suc k) \<noteq> monotonic e k"
    and "monotonic e n \<noteq> monotonic e 0"
    and "15 \<le> n" and "shutter_button_value e n"
    and "\<forall>k. 15 \<le> k \<and> k < n \<longrightarrow> \<not> shutter_button_value e k"
  shows "(\<exists>s'. handle_gif_capture e s = Some (Inr s')
            \<and> frames_taken s' = frames_taken s + n
            \<and> effects s' = effects s @ [OpenNextImage ''gif'', Refresh, GifWriterEnter]
                 @ recorded e (frames_taken s) n
                 @ [GifWriterExit, FileClose, Refresh, DisplayMessage ''Saved!'' 0x00FF00]
            \<and> count_list (effects s') FileClose = count_list (effects s) FileClose + 1
            \<and> count_list (effects s') GifWriterExit = count_list (effects s) GifWriterExit + 1
            \<and> mode_label s' = ''GIF'')
       \<and> ((\<exists>r<15. \<forall>k\<ge>r. shutter_button_value e k) \<longrightarrow> n = 15)
       \<and> (\<forall>i t0 s0 m t s1. gif_loop e i t0 s0 = Some (Inr (m, t), s1)
             \<longrightarrow> 15 \<le> m \<and> shutter_button_value e m)"
proof -
  let ?s' = "s\<lparr>mode_label := ''GIF'', frames_taken := frames_taken s + n,
               effects := effects s @ [OpenNextImage ''gif'', Refresh, GifWriterEnter]
                 @ recorded e (frames_taken s) n
                 @ [GifWriterExit, FileClose, Refresh, DisplayMessage ''Saved!'' 0x00FF00]\<rparr>"
  have cap: "capture_animated_gif e s
           = Some (Inr (PyBool True),
                   s\<lparr>mode_label := ''GIF'', frames_taken := frames_taken s + n,
                     effects := effects s @ [OpenNextImage ''gif'', Refresh, GifWriterEnter]
                        @ recorded e (frames_taken s) n @ [GifWriterExit, FileClose, Refresh]\<rparr>)"
    by (rule capture_animated_gif_run[OF assms(2-9)])
  have run: "handle_gif_capture e s = Some (Inr ?s')"
    using assms(1)
    by (simp add: handle_gif_capture_def safe_capture_operation_def cap show_capture_status_def
          emit_def)
  have first: "\<exists>s'. handle_gif_capture e s = Some (Inr s')
            \<and> frames_taken s' = frames_taken s + n
            \<and> effects s' = effects s @ [OpenNextImage ''gif'', Refresh, GifWriterEnter]
                 @ recorded e (frames_taken s) n
                 @ [GifWriterExit, FileClose, Refresh, DisplayMessage ''Saved!'' 0x00FF00]
            \<and> count_list (effects s') FileClose = count_list (effects s) FileClose + 1
            \<and> count_list (effects s') GifWriterExit = count_list (effects s) GifWriterExit + 1
            \<and> mode_label s' = ''GIF''"
    apply (rule exI[of _ ?s'])
    using run by (simp add: count_recorded)
  have second: "(\<exists>r<15. \<forall>k\<ge>r. shutter_button_value e k) \<longrightarrow> n = 15"
  proof
    assume "\<exists>r<15. \<forall>k\<ge>r. shutter_button_value e k"
    then have "shutter_button_value e 15" by auto
    with assms(9) have "\<not> 15 < n" by auto
    with assms(7) show "n = 15" by simp
  qed
  have third: "\<forall>i t0 s0 m t s1. gif_loop e i t0 s0 = Some (Inr (m, t), s1)
             \<longrightarrow> 15 \<le> m \<and> shutter_button_value e m"
    using gif_loop_exit_only by blast
  from first second third show ?thesis by blast
qed

text \<open>The button is held for the first three frames and then released for good.\<close>

theorem gif_recording_released_after_three_frames:
  "is_sd_card_available (fs (world (card_with []) (Inr PyNone) 3))
   \<and> \<not> shutter_button_value (world (card_with []) (Inr PyNone) 3) 2
   \<and> shutter_button_value (world (card_with []) (Inr PyNone) 3) 3
   \<and> shutter_button_value (world (card_with []) (Inr PyNone) 3) 15
   \<and> (\<exists>s'. handle_gif_capture (world (card_with []) (Inr PyNone) 3) fresh_state = Some (Inr s')
          \<and> frames_taken s' = 15
          \<and> count_list (effects s') FileClose = 1
          \<and> count_list (effects s') GifWriterExit = 1
          \<and> mode_label s' = ''GIF'')"
proof -
  let ?e = "world (card_with []) (Inr PyNone) 3"
  have h1: "is_sd_card_available (fs ?e)" by (simp add: world_facts)
  have h2: "open_next_image ?e = None" "gif_writer_init ?e = None"
    "\<forall>k. 1 \<le> k \<and> k \<le> 15 \<longrightarrow> add_frame ?e k = None"
    "\<forall>k<15. monotonic ?e (Suc k) \<noteq> monotonic ?e k"
    "monotonic ?e 15 \<noteq> monotonic ?e 0"
    by (simp_all add: world_def)
  have h3: "(15::nat) \<le> 15" "shutter_button_value ?e 15"
    "\<forall>k. 15 \<le> k \<and> k < 15 \<longrightarrow> \<not> shutter_button_value ?e k"
    by (simp_all add: world_def)
  have f: "frames_taken fresh_state = 0" "effects fresh_state = []"
    by (simp_all add: fresh_state_def)
  from gif_recording_ends_at_minimum_and_release[OF h1 h2 h3, of fresh_state]
  have "\<exists>s'. handle_gif_capture ?e fresh_state = Some (Inr s')
          \<and> frames_taken s' = 15
          \<and> count_list (effects s') FileClose = 1
          \<and> count_list (effects s') GifWriterExit = 1
          \<and> mode_label s' = ''GIF''"
    by (auto simp add: f)
  moreover have "\<not> shutter_button_value ?e 2" "shutter_button_value ?e 3"
    by (simp_all add: world_def)
  ultimately show ?thesis using h1 h3(2) by blast
qed

section \<open>A press of Select\<close>

lemma same_modes_refl [simp]: "same_modes s s"
  by (simp add: same_modes_def)

lemma same_modes_trans: "same_modes s t \<Longrightarrow> same_modes t u \<Longrightarrow> same_modes s u"
  by (simp add: same_modes_def)

lemma same_modes_emit [simp]: "same_modes s (emit l s)"
  by (simp add: same_modes_def emit_def)

lemma same_modes_status [simp]: "same_modes s (show_capture_status a p s)"
  by (simp add: show_capture_status_def)

lemma same_modes_frame [simp]: "same_modes s (snd (continuous_capture e s))"
  by (simp add: same_modes_def continuous_capture_def)

lemma capture_jpeg_modes:
  assumes "capture_jpeg e s = Some (r, s1)"
  shows "same_modes s s1"
  using assms by (auto simp: capture_jpeg_def)

lemma capture_gameboy_gif_modes:
  assumes "capture_gameboy_gif e s = Some (r, s1)"
  shows "same_modes s s1"
  using assms
  by (auto simp: capture_gameboy_gif_def Let_def same_modes_def emit_def split: option.splits)

lemma gif_loop_modes:
  assumes "gif_loop e i t0 s = Some y"
  shows "same_modes s (snd y)"
proof (rule gif_loop.raw_induct [where P = "\<lambda>e i t0 s y. same_modes s (snd y)"])
  show "gif_loop e i t0 s = Some y" by fact
next
  fix loop :: "env \<Rightarrow> nat \<Rightarrow> int \<Rightarrow> state \<Rightarrow> ((py_error + nat \<times> int) \<times> state) option"
  fix e i t0 s y
  assume IH: "\<And>i t0 s b y. loop i t0 s b = Some y \<Longrightarrow> same_modes b (snd y)"
  assume body:
    "(if i < 15 \<or> \<not> shutter_button_value e i
      then let s1 = snd (continuous_capture e s);
               gifframe = fst (continuous_capture e s)
           in case add_frame e (i + 1) of
              None \<Rightarrow>
                let s2 = emit [GifAddFrame gifframe, Blit gifframe] s1;
                    t1 = monotonic e (i + 1)
                in if t1 = t0 then Some (Inl ZeroDivisionError, s2)
                   else loop e (i + 1) t1 s2
              | Some err \<Rightarrow> Some (Inl err, s1)
      else Some (Inr (i, t0), s)) = Some y"
  let ?s2 = "emit [GifAddFrame (fst (continuous_capture e s)), Blit (fst (continuous_capture e s))]
               (snd (continuous_capture e s))"
  have s2: "same_modes s ?s2"
    by (rule same_modes_trans[OF same_modes_frame same_modes_emit])
  show "same_modes s (snd y)"
  proof (cases "i < 15 \<or> \<not> shutter_button_value e i")
    case False
    with body show ?thesis by auto
  next
    case True
    show ?thesis
    proof (cases "add_frame e (i + 1)")
      case (Some err)
      with True body show ?thesis by (auto simp: Let_def)
    next
      case None
      show ?thesis
      proof (cases "monotonic e (i + 1) = t0")
        case eq: True
        with True None body have "y = (Inl ZeroDivisionError, ?s2)" by (auto simp: Let_def)
        with s2 show ?thesis by simp
      next
        case neq: False
        with True None body have "loop e (i + 1) (monotonic e (i + 1)) ?s2 = Some y"
          by (simp add: Let_def)
        from IH[OF this] s2 show ?thesis by (rule same_modes_trans[rotated])
      qed
    qed
  qed
qed

lemma capture_animated_gif_modes:
  assumes "capture_animated_gif e s = Some (r, s1)"
  shows "same_modes s s1"
proof (cases "open_next_image e")
  case (Some err)
  with assms show ?thesis by (simp add: capture_animated_gif_def)
next
  case None
  let ?s1 = "emit [Refresh] ((emit [OpenNextImage ''gif''] s)\<lparr>mode_label := ''RECORDING''\<rparr>)"
  have m1: "same_modes s ?s1" by (simp add: same_modes_def emit_def)
  show ?thesis
  proof (cases "gif_writer_init e")
    case (Some err)
    with assms None m1 show ?thesis by (simp add: capture_animated_gif_def Let_def)
  next
    case init: None
    let ?s2 = "emit [GifWriterEnter] ?s1"
    have m2: "same_modes s ?s2" by (simp add: same_modes_def emit_def)
    from assms None init obtain y where y: "gif_loop e 0 (monotonic e 0) ?s2 = Some y"
      by (cases "gif_loop e 0 (monotonic e 0) ?s2")
         (simp_all add: capture_animated_gif_def Let_def)
    from gif_loop_modes[OF y] m2 have m3: "same_modes s (snd y)"
      by (rule same_modes_trans[rotated])
    obtain res s3 where yy: "y = (res, s3)" by (cases y)
    with m3 have m4: "same_modes s s3" by simp
    then have m5: "same_modes s (emit [GifWriterExit] s3)"
      "same_modes s ((emit [GifWriterExit] s3)\<lparr>mode_label := ''GIF''\<rparr>)"
      "same_modes s (emit [FileClose, Refresh] ((emit [GifWriterExit] s3)\<lparr>mode_label := ''GIF''\<rparr>))"
      by (simp_all add: same_modes_def emit_def)
    show ?thesis
    proof (cases res)
      case (Inl err)
      with assms None init y yy have "s1 = emit [GifWriterExit] s3"
        by (simp add: capture_animated_gif_def Let_def)
      with m5 show ?thesis by simp
    next
      case (Inr p)
      obtain n t where p: "p = (n, t)" by (cases p)
      with assms None init y yy Inr have
        "s1 = (emit [GifWriterExit] s3)\<lparr>mode_label := ''GIF''\<rparr>
         \<or> s1 = emit [FileClose, Refresh] ((emit [GifWriterExit] s3)\<lparr>mode_label := ''GIF''\<rparr>)"
        by (auto simp add: capture_animated_gif_def Let_def split: if_splits)
      with m5 show ?thesis by auto
    qed
  qed
qed

lemma safe_capture_operation_modes:
  assumes "safe_capture_operation e f s = Some (Inr (r, s'))"
    and "\<And>r1 s1. f s = Some (r1, s1) \<Longrightarrow> same_modes s s1"
  shows "same_modes s s'"
proof (cases "is_sd_card_available (fs e)")
  case False
  with assms(1) show ?thesis by (auto simp: safe_capture_operation_def)
next
  case True
  from assms(1) True obtain r1 s1 where f: "f s = Some (r1, s1)"
    by (cases "f s") (auto simp: safe_capture_operation_def)
  from assms(1) True f have "s' = show_capture_status True False s1
                           \<or> s' = show_capture_status False False s1"
    by (auto simp: safe_capture_operation_def split: sum.splits if_splits)
  then have "same_modes s1 s'" by auto
  with assms(2)[OF f] show ?thesis by (rule same_modes_trans)
qed

lemma handle_stop_motion_capture_modes:
  assumes "handle_stop_motion_capture e s = Some (Inr s')"
  shows "same_modes s s'"
proof -
  let ?s3 = "emit [DisplayMessage ''Snap!'' 0x0000FF]
               ((capture_into_last_frame e s)
                  \<lparr>stop_motion_frame := stop_motion_frame (capture_into_last_frame e s) + 1\<rparr>)"
  have m3: "same_modes s ?s3"
    by (simp add: same_modes_def emit_def capture_into_last_frame_def continuous_capture_def)
  from assms obtain r s4 where
    c: "safe_capture_operation e (capture_jpeg e) ?s3 = Some (Inr (r, s4))"
    and s': "s' = emit [LivePreviewMode] s4"
    by (auto simp: handle_stop_motion_capture_def Let_def split: option.splits sum.splits)
  have "same_modes ?s3 s4"
    by (rule safe_capture_operation_modes[OF c]) (rule capture_jpeg_modes)
  with m3 have "same_modes s s4" by (rule same_modes_trans)
  then show ?thesis unfolding s' by (rule same_modes_trans) simp
qed

lemma handle_gameboy_capture_modes:
  assumes "handle_gameboy_capture e s = Some (Inr s')"
  shows "same_modes s s'"
proof -
  from assms obtain r where
    c: "safe_capture_operation e (capture_gameboy_gif e) s = Some (Inr (r, s'))"
    by (auto simp: handle_gameboy_capture_def split: option.splits sum.splits)
  show ?thesis
    by (rule safe_capture_operation_modes[OF c]) (rule capture_gameboy_gif_modes)
qed

lemma handle_gif_capture_modes:
  assumes "handle_gif_capture e s = Some (Inr s')"
  shows "same_modes s s'"
proof -
  from assms obtain r where
    c: "safe_capture_operation e (capture_animated_gif e) s = Some (Inr (r, s'))"
    by (auto simp: handle_gif_capture_def split: option.splits sum.splits)
  show ?thesis
    by (rule safe_capture_operation_modes[OF c]) (rule capture_animated_gif_modes)
qed

lemma handle_jpeg_capture_modes:
  assumes "handle_jpeg_capture e s = Some (Inr s')"
  shows "same_modes s s'"
proof -
  let ?s1 = "emit [Tone 1500 50, DisplayMessage ''Snap!'' 0x0000FF] s"
  from assms obtain r s2 where
    c: "safe_capture_operation e (capture_jpeg e) ?s1 = Some (Inr (r, s2))"
    and s': "s' = emit [LivePreviewMode] s2"
    by (auto simp: handle_jpeg_capture_def Let_def split: option.splits sum.splits)
  have "same_modes ?s1 s2"
    by (rule safe_capture_operation_modes[OF c]) (rule capture_jpeg_modes)
  with same_modes_emit have "same_modes s s2" by (rule same_modes_trans)
  then show ?thesis unfolding s' by (rule same_modes_trans) simp
qed

text \<open>The shutter handlers change neither the gallery flag nor the capture mode.\<close>

lemma handle_shutter_button_modes:
  assumes "handle_shutter_button e b s = Some (Inr s')"
  shows "same_modes s s'"
proof -
  let ?s1 = "if shutter_long_press b then emit [Autofocus] s else s"
  have m1: "same_modes s ?s1" by simp
  have "same_modes ?s1 s'"
  proof (cases "shutter_short_count b \<noteq> 0")
    case False
    with assms show ?thesis by (simp add: handle_shutter_button_def Let_def)
  next
    case True
    with assms have
      "handle_stop_motion_capture e ?s1 = Some (Inr s')
       \<or> handle_gameboy_capture e ?s1 = Some (Inr s')
       \<or> handle_gif_capture e ?s1 = Some (Inr s')
       \<or> handle_jpeg_capture e ?s1 = Some (Inr s')
       \<or> s' = ?s1"
      by (simp add: handle_shutter_button_def Let_def split: if_splits)
    then show ?thesis
      using handle_stop_motion_capture_modes handle_gameboy_capture_modes
            handle_gif_capture_modes handle_jpeg_capture_modes same_modes_refl
      by (elim disjE) (simp_all only:)
  qed
  with m1 show ?thesis by (rule same_modes_trans)
qed

lemma when_pressed_cases:
  assumes "when_pressed p h s = Inr s'"
  shows "(p \<and> h s = Inr s') \<or> (\<not> p \<and> s' = s)"
  using assms by (auto simp: when_pressed_def split: if_splits)

lemma when_pressed_modes:
  assumes "when_pressed p h s = Inr s'"
    and "\<And>t. h s = Inr t \<Longrightarrow> same_modes s t"
  shows "same_modes s s'"
  using when_pressed_cases[OF assms(1)] assms(2) by auto

lemma in_turn_step:
  assumes "in_turn (h # hs) s = Inr s'"
  shows "\<exists>s1. h s = Inr s1 \<and> in_turn hs s1 = Inr s'"
  using assms by (cases "h s") simp_all

lemma move_setting_modes:
  assumes "move_setting m s = Inr s'"
  shows "same_modes s s'"
  using assms
  by (auto simp: move_setting_def Let_def same_modes_def emit_def split: sum.splits if_splits)

text \<open>Without an Up or Down edge the settings handlers leave the modes alone.\<close>

lemma handle_navigation_buttons_modes:
  assumes "handle_navigation_buttons e b s = Inr s'"
    and "\<not> up_fell b" and "\<not> down_fell b"
  shows "same_modes s s'"
proof -
  from assms have
    "in_turn [when_pressed (right_fell b) (\<lambda>s. move_setting (curr_setting s + 1) s),
              when_pressed (left_fell b)
                (\<lambda>s. move_setting (curr_setting s - 1 + int (length SETTINGS)) s)] s = Inr s'"
    by (simp add: handle_navigation_buttons_def when_pressed_def)
  from in_turn_step[OF this] obtain s1 where
    a: "when_pressed (right_fell b) (\<lambda>s. move_setting (curr_setting s + 1) s) s = Inr s1"
    and r: "in_turn [when_pressed (left_fell b)
                (\<lambda>s. move_setting (curr_setting s - 1 + int (length SETTINGS)) s)] s1 = Inr s'"
    by (elim exE conjE)
  from in_turn_step[OF r] have
    b: "when_pressed (left_fell b)
          (\<lambda>s. move_setting (curr_setting s - 1 + int (length SETTINGS)) s) s1 = Inr s'"
    by auto
  have "same_modes s s1"
    by (rule when_pressed_modes[OF a]) (rule move_setting_modes)
  moreover have "same_modes s1 s'"
    by (rule when_pressed_modes[OF b]) (rule move_setting_modes)
  ultimately show ?thesis by (rule same_modes_trans)
qed

lemma handle_ok_button_modes:
  assumes "handle_ok_button e s = Inr s'"
  shows "same_modes s s'"
  using assms
  by (auto simp: handle_ok_button_def same_modes_def emit_def split: if_splits)

lemma display_current_image_modes:
  assumes "display_current_image e s = Inr s'"
  shows "same_modes s s'"
proof -
  from display_current_image_frame[OF assms] obtain b g r l where
    "s' = s\<lparr>gallery_image_buffer := b, gallery_group := g,
             gallery_group_in_root := r, effects := l\<rparr>"
    by (elim exE conjE)
  then show ?thesis by (simp add: same_modes_def)
qed

lemma gallery_navigate_modes:
  assumes "gallery_navigate e d s = Inr s'"
  shows "same_modes s s'"
proof (cases "gallery_images s = []")
  case True
  with assms show ?thesis by (simp add: gallery_navigate_def)
next
  case False
  with assms obtain k where "display_current_image e (s\<lparr>gallery_index := k\<rparr>) = Inr s'"
    by (simp add: gallery_navigate_def Let_def)
  from display_current_image_modes[OF this] show ?thesis by (simp add: same_modes_def)
qed

lemma gallery_zoom_in_modes:
  assumes "gallery_zoom_in e s = Inr s'"
  shows "same_modes s s'"
proof (cases "1 < gallery_zoom_level s")
  case True
  with assms have
    "display_current_image e (s\<lparr>gallery_zoom_level := gallery_zoom_level s - 1\<rparr>) = Inr s'"
    by (simp add: gallery_zoom_in_def)
  from display_current_image_modes[OF this] show ?thesis by (simp add: same_modes_def)
next
  case False
  with assms show ?thesis by (simp add: gallery_zoom_in_def)
qed

lemma gallery_zoom_out_modes:
  assumes "gallery_zoom_out e s = Inr s'"
  shows "same_modes s s'"
proof (cases "gallery_zoom_level s < 3")
  case True
  with assms have
    "display_current_image e (s\<lparr>gallery_zoom_level := gallery_zoom_level s + 1\<rparr>) = Inr s'"
    by (simp add: gallery_zoom_out_def)
  from display_current_image_modes[OF this] show ?thesis by (simp add: same_modes_def)
next
  case False
  with assms show ?thesis by (simp add: gallery_zoom_out_def)
qed

lemma enter_gallery_mode_from_any_flag:
  "enter_gallery_mode e (s\<lparr>gallery_mode := g\<rparr>) = enter_gallery_mode e s"
  by (simp add: enter_gallery_mode_def)

text \<open>
  Whenever \<^verbatim>\<open>handle_select_button\<close> returns: in time-lapse mode the sub-mode has
  advanced and the gallery flag is as it was; in every other mode the gallery is on
  exactly when it was off before and the scan found something.
\<close>

lemma handle_select_button_outcome:
  assumes "handle_select_button e s = Inr s'"
  shows "mode_text s' = mode_text s
       \<and> (mode_text s = ''LAPS'' \<longrightarrow>
             gallery_mode s' = gallery_mode s \<and> timelapse_submode s' = timelapse_submode s + 1)
       \<and> (mode_text s \<noteq> ''LAPS'' \<longrightarrow>
             gallery_mode s' = (\<not> gallery_mode s \<and> fst (scan_gallery_images e s) \<noteq> [])
             \<and> timelapse_submode s' = timelapse_submode s)"
proof (cases "mode_text s = ''LAPS''")
  case True
  with assms have "s' = emit [Refresh] (s\<lparr>timelapse_submode := timelapse_submode s + 1\<rparr>)"
    by (simp add: handle_select_button_def)
  then show ?thesis using True by (simp add: emit_def)
next
  case False
  show ?thesis
  proof (cases "gallery_mode s")
    case on: True
    with assms False have "exit_gallery_mode (s\<lparr>gallery_mode := False\<rparr>) = Inr s'"
      by (simp add: handle_select_button_def)
    from exit_gallery_mode_frame[OF this] show ?thesis
      using False on by simp
  next
    case off: False
    with assms False have "enter_gallery_mode e s = Inr s'"
      by (simp add: handle_select_button_def enter_gallery_mode_from_any_flag)
    from enter_gallery_mode_frame[OF this] show ?thesis
      using False off by simp
  qed
qed

text \<open>A tick in the gallery, with the card present and Select pressed.\<close>

lemma gallery_tick_outcome:
  assumes "handle_gallery_buttons e b s = Inr s'"
    and "is_sd_card_available (fs e)" and "select_fell b" and "gallery_mode s"
  shows "(mode_text s \<noteq> ''LAPS'' \<longrightarrow> \<not> gallery_mode s')
       \<and> (mode_text s = ''LAPS'' \<longrightarrow>
             gallery_mode s' = (shutter_short_count b = 0)
             \<and> timelapse_submode s' = timelapse_submode s + 1)"
proof -
  from assms(1,2) have
    t: "in_turn
             [when_pressed (left_fell b) (gallery_navigate e (- 1)),
              when_pressed (right_fell b) (gallery_navigate e 1),
              when_pressed (select_fell b) (handle_select_button e),
              when_pressed (shutter_short_count b \<noteq> 0) exit_gallery_mode,
              when_pressed (up_fell b) (gallery_zoom_in e),
              when_pressed (down_fell b) (gallery_zoom_out e)] s = Inr s'"
    by (simp add: handle_gallery_buttons_def)
  from in_turn_step[OF t] obtain s1 where
    a1: "when_pressed (left_fell b) (gallery_navigate e (- 1)) s = Inr s1"
    and t1: "in_turn
             [when_pressed (right_fell b) (gallery_navigate e 1),
              when_pressed (select_fell b) (handle_select_button e),
              when_pressed (shutter_short_count b \<noteq> 0) exit_gallery_mode,
              when_pressed (up_fell b) (gallery_zoom_in e),
              when_pressed (down_fell b) (gallery_zoom_out e)] s1 = Inr s'"
    by (elim exE conjE)
  from in_turn_step[OF t1] obtain s2 where
    a2: "when_pressed (right_fell b) (gallery_navigate e 1) s1 = Inr s2"
    and t2: "in_turn
             [when_pressed (select_fell b) (handle_select_button e),
              when_pressed (shutter_short_count b \<noteq> 0) exit_gallery_mode,
              when_pressed (up_fell b) (gallery_zoom_in e),
              when_pressed (down_fell b) (gallery_zoom_out e)] s2 = Inr s'"
    by (elim exE conjE)
  from in_turn_step[OF t2] obtain s3 where
    a3: "when_pressed (select_fell b) (handle_select_button e) s2 = Inr s3"
    and t3: "in_turn
             [when_pressed (shutter_short_count b \<noteq> 0) exit_gallery_mode,
              when_pressed (up_fell b) (gallery_zoom_in e),
              when_pressed (down_fell b) (gallery_zoom_out e)] s3 = Inr s'"
    by (elim exE conjE)
  from in_turn_step[OF t3] obtain s4 where
    a4: "when_pressed (shutter_short_count b \<noteq> 0) exit_gallery_mode s3 = Inr s4"
    and t4: "in_turn
             [when_pressed (up_fell b) (gallery_zoom_in e),
              when_pressed (down_fell b) (gallery_zoom_out e)] s4 = Inr s'"
    by (elim exE conjE)
  from in_turn_step[OF t4] obtain s5 where
    a5: "when_pressed (up_fell b) (gallery_zoom_in e) s4 = Inr s5"
    and t5: "in_turn [when_pressed (down_fell b) (gallery_zoom_out e)] s5 = Inr s'"
    by (elim exE conjE)
  from in_turn_step[OF t5] have
    a6: "when_pressed (down_fell b) (gallery_zoom_out e) s5 = Inr s'"
    by auto
  have m1: "same_modes s s1"
    by (rule when_pressed_modes[OF a1]) (rule gallery_navigate_modes)
  have m2: "same_modes s1 s2"
    by (rule when_pressed_modes[OF a2]) (rule gallery_navigate_modes)
  have m12: "same_modes s s2" using m1 m2 by (rule same_modes_trans)
  have sel: "handle_select_button e s2 = Inr s3"
    using a3 assms(3) by (simp add: when_pressed_def)
  note o = handle_select_button_outcome[OF sel]
  have m5: "same_modes s4 s5"
    by (rule when_pressed_modes[OF a5]) (rule gallery_zoom_in_modes)
  have m6: "same_modes s5 s'"
    by (rule when_pressed_modes[OF a6]) (rule gallery_zoom_out_modes)
  have m46: "same_modes s4 s'" using m5 m6 by (rule same_modes_trans)
  have k4: "gallery_mode s4 = (gallery_mode s3 \<and> shutter_short_count b = 0)"
           "timelapse_submode s4 = timelapse_submode s3"
    using when_pressed_cases[OF a4] exit_gallery_mode_frame[of s3 s4] by auto
  show ?thesis
    using o m12 m46 k4 assms(4) by (auto simp: same_modes_def)
qed

text \<open>A tick in the gallery after the card has gone.\<close>

lemma gallery_tick_without_card:
  assumes "handle_gallery_buttons e b s = Inr s'"
    and "\<not> is_sd_card_available (fs e)"
  shows "\<not> gallery_mode s' \<and> timelapse_submode s' = timelapse_submode s"
proof -
  let ?s1 = "emit [DisplayMessage (''SD Card'' @ [CHR 0x0A] @ ''Removed'') 0xFF0000, Sleep 1000] s"
  from assms have "exit_gallery_mode ?s1 = Inr s'"
    by (simp add: handle_gallery_buttons_def)
  from exit_gallery_mode_frame[OF this] show ?thesis by (simp add: emit_def)
qed

text \<open>
  A tick in camera mode with Select pressed, in terms of the state the shutter and
  settings handlers leave.
\<close>

lemma camera_tick_split:
  assumes "handle_camera_buttons e b s = Some (Inr s')" and "select_fell b"
  shows "\<exists>s1 s2 s3. handle_shutter_button e b s = Some (Inr s1)
           \<and> handle_navigation_buttons e b s1 = Inr s2
           \<and> handle_select_button e s2 = Inr s3
           \<and> when_pressed (ok_fell b) (handle_ok_button e) s3 = Inr s'"
proof -
  from assms(1) obtain s1 where
    sh: "handle_shutter_button e b s = Some (Inr s1)"
    and t: "in_turn
                  [handle_navigation_buttons e b,
                   when_pressed (select_fell b) (handle_select_button e),
                   when_pressed (ok_fell b) (handle_ok_button e)] s1 = Inr s'"
    by (auto simp: handle_camera_buttons_def split: option.splits sum.splits)
  from in_turn_step[OF t] obtain s2 where
    nav: "handle_navigation_buttons e b s1 = Inr s2"
    and t2: "in_turn
                  [when_pressed (select_fell b) (handle_select_button e),
                   when_pressed (ok_fell b) (handle_ok_button e)] s2 = Inr s'"
    by (elim exE conjE)
  from in_turn_step[OF t2] obtain s3 where
    a3: "when_pressed (select_fell b) (handle_select_button e) s2 = Inr s3"
    and t3: "in_turn [when_pressed (ok_fell b) (handle_ok_button e)] s3 = Inr s'"
    by (elim exE conjE)
  from in_turn_step[OF t3] have ok: "when_pressed (ok_fell b) (handle_ok_button e) s3 = Inr s'"
    by auto
  have sel: "handle_select_button e s2 = Inr s3"
    using a3 assms(2) by (simp add: when_pressed_def)
  from sh nav sel ok show ?thesis by (intro exI conjI)
qed

lemma camera_tick_outcome:
  assumes "handle_camera_buttons e b s = Some (Inr s')" and "select_fell b"
    and "handle_shutter_button e b s = Some (Inr s1)"
    and "handle_navigation_buttons e b s1 = Inr s2"
  shows "(mode_text s2 \<noteq> ''LAPS'' \<longrightarrow>
            gallery_mode s' = (\<not> gallery_mode s2 \<and> fst (scan_gallery_images e s) \<noteq> []))
       \<and> (mode_text s2 = ''LAPS'' \<longrightarrow>
            gallery_mode s' = gallery_mode s2
            \<and> timelapse_submode s' = timelapse_submode s2 + 1)
       \<and> (\<not> up_fell b \<and> \<not> down_fell b \<longrightarrow> same_modes s s2)"
proof -
  from camera_tick_split[OF assms(1,2)] assms(3,4) obtain s3 where
    sel: "handle_select_button e s2 = Inr s3"
    and ok: "when_pressed (ok_fell b) (handle_ok_button e) s3 = Inr s'"
    by auto
  note o = handle_select_button_outcome[OF sel]
  have m: "same_modes s3 s'"
    by (rule when_pressed_modes[OF ok]) (rule handle_ok_button_modes)
  have sc: "fst (scan_gallery_images e s2) = fst (scan_gallery_images e s)"
    by (rule scan_fst_any_state)
  have m1: "same_modes s s1" by (rule handle_shutter_button_modes[OF assms(3)])
  have m2: "\<not> up_fell b \<and> \<not> down_fell b \<longrightarrow> same_modes s s2"
    using m1 handle_navigation_buttons_modes[OF assms(4)] by (auto intro: same_modes_trans)
  show ?thesis
    using o m m2 by (auto simp: same_modes_def sc)
qed

lemma camera_tick_plain:
  assumes "handle_camera_buttons e b s = Some (Inr s')" and "select_fell b"
    and "\<not> up_fell b" and "\<not> down_fell b" and "\<not> gallery_mode s"
  shows "(mode_text s \<noteq> ''LAPS'' \<longrightarrow>
            gallery_mode s' = (fst (scan_gallery_images e s) \<noteq> []))
       \<and> (mode_text s = ''LAPS'' \<longrightarrow>
            \<not> gallery_mode s' \<and> timelapse_submode s' = timelapse_submode s + 1)"
proof -
  from camera_tick_split[OF assms(1,2)] obtain s1 s2 where
    sh: "handle_shutter_button e b s = Some (Inr s1)"
    and nav: "handle_navigation_buttons e b s1 = Inr s2"
    by (elim exE conjE)
  from camera_tick_outcome[OF assms(1,2) sh nav] assms(3,4,5) show ?thesis
    by (auto simp: same_modes_def)
qed

lemma shutter_idle:
  assumes "\<not> shutter_long_press b" and "shutter_short_count b = 0"
  shows "handle_shutter_button e b s = Some (Inr s)"
  using assms by (simp add: handle_shutter_button_def)

lemma navigation_idle:
  assumes "\<not> up_fell b" and "\<not> down_fell b" and "\<not> left_fell b" and "\<not> right_fell b"
  shows "handle_navigation_buttons e b s = Inr s"
  using assms by (simp add: handle_navigation_buttons_def when_pressed_def)

lemma camera_tick_select_only:
  "handle_camera_buttons e select_only s = Some (handle_select_button e s)"
proof -
  have "in_turn [handle_navigation_buttons e select_only,
                 when_pressed (select_fell select_only) (handle_select_button e),
                 when_pressed (ok_fell select_only) (handle_ok_button e)] s
          = handle_select_button e s"
    by (cases "handle_select_button e s")
       (simp_all add: when_pressed_def navigation_idle select_only_def)
  then show ?thesis
    by (simp add: handle_camera_buttons_def shutter_idle select_only_def)
qed

lemma gallery_tick_select_only:
  assumes "is_sd_card_available (fs e)"
  shows "handle_gallery_buttons e select_only s = handle_select_button e s"
  using assms
  by (cases "handle_select_button e s")
     (simp_all add: handle_gallery_buttons_def when_pressed_def select_only_def)

lemma exit_gallery_mode_returns:
  assumes "buffer_fits s"
  shows "\<exists>s'. exit_gallery_mode s = Inr s'"
proof -
  from exit_gallery_mode_ok[OF assms] obtain buf where
    "exit_gallery_mode s
           = Inr (s\<lparr>gallery_mode := False, gallery_images := [], gallery_index := 0,
                    gallery_image_buffer := Some buf, gallery_group := None,
                    gallery_group_in_root :=
                      (if gallery_group s \<noteq> None then False else gallery_group_in_root s),
                    effects := effects s @
                      [LivePreviewMode, Refresh, Sleep 200, Refresh, Sleep 100, Refresh,
                       DisplayMessage ''Camera Mode'' 0x00FF00, Sleep 500]\<rparr>)"
    by (elim exE conjE)
  then show ?thesis by (rule exI)
qed

text \<open>
  A tick on which only Select was pressed returns when the buffer covers the frame and,
  where the gallery is entered on a non-empty scan, the first file fails to load or loads
  to a bitmap with width and height.
\<close>

lemma select_tick_returns:
  assumes "buffer_fits s"
    and "gallery_mode s \<or> mode_text s = ''LAPS'' \<or> fst (scan_gallery_images e s) = []
         \<or> loads_nonempty e (s\<lparr>gallery_zoom_level := 1\<rparr>) (hd (fst (scan_gallery_images e s)))"
  shows "\<exists>s'. handle_all_buttons e select_only s = Some (Inr s')"
proof (cases "gallery_mode s")
  case off: False
  have tick: "handle_all_buttons e select_only s = Some (handle_select_button e s)"
    using off by (simp add: handle_all_buttons_def camera_tick_select_only)
  show ?thesis
  proof (cases "mode_text s = ''LAPS''")
    case True
    then show ?thesis by (simp add: tick handle_select_button_def)
  next
    case False
    have "\<exists>s'. enter_gallery_mode e s = Inr s'"
    proof (rule enter_gallery_mode_returns[OF assms(1)])
      assume "fst (scan_gallery_images e s) \<noteq> []"
      with assms(2) off False
      show "loads_nonempty e (s\<lparr>gallery_zoom_level := 1\<rparr>) (hd (fst (scan_gallery_images e s)))"
        by simp
    qed
    then show ?thesis
      using off False by (simp add: tick handle_select_button_def enter_gallery_mode_from_any_flag)
  qed
next
  case on: True
  have tick: "handle_all_buttons e select_only s = Some (handle_gallery_buttons e select_only s)"
    using on by (simp add: handle_all_buttons_def)
  show ?thesis
  proof (cases "is_sd_card_available (fs e)")
    case nocard: False
    let ?s1 = "emit [DisplayMessage (''SD Card'' @ [CHR 0x0A] @ ''Removed'') 0xFF0000, Sleep 1000] s"
    have "buffer_fits ?s1" using assms(1) by (simp add: buffer_fits_def emit_def split: option.splits)
    from exit_gallery_mode_returns[OF this] show ?thesis
      using nocard by (simp add: tick handle_gallery_buttons_def)
  next
    case card: True
    show ?thesis
    proof (cases "mode_text s = ''LAPS''")
      case True
      then show ?thesis
        by (simp add: tick gallery_tick_select_only[OF card] handle_select_button_def)
    next
      case False
      have "buffer_fits (s\<lparr>gallery_mode := False\<rparr>)"
        using assms(1) by (simp add: buffer_fits_def split: option.splits)
      from exit_gallery_mode_returns[OF this] show ?thesis
        using on False
        by (simp add: tick gallery_tick_select_only[OF card] handle_select_button_def)
    qed
  qed
qed

lemma mode_facts:
  "mode_text fresh_state = ''JPEG''" "\<not> gallery_mode fresh_state"
  "mode_text browsing = ''JPEG''" "gallery_mode browsing"
  "mode_text lapsing = ''LAPS''" "\<not> gallery_mode lapsing" "timelapse_submode lapsing = 0"
  "buffer_fits lapsing" "select_fell select_only"
  "\<not> up_fell select_only" "\<not> down_fell select_only"
  by (simp_all add: fresh_state_def browsing_def lapsing_def buffer_fits_def blank_bitmap_def
        select_only_def)




end
